theory Spec2Isabelle
  imports Complex_Main "HOL-Library.Word" "HOL-Library.Char_ord" "HOL-Library.List_Lexorder"
    "HOL-Library.Multiset"
begin

unbundle bit_operations_syntax

section \<open>Python values used by cluster_meters.py\<close>

text \<open>
  A Python \<^verbatim>\<open>str\<close> is modelled as a HOL \<open>string\<close> whose characters stand for the code
  points 0..255 (so \<open>length\<close> counts code points, as \<^verbatim>\<open>len\<close> does); text with code points
  above 255 is outside the model. Comparison of strings is by code point, lexicographically
  (the orders of \<open>Char_ord\<close> and \<open>List_Lexorder\<close>).
\<close>

datatype py_error =
    IndexError
  | KeyError string
  | ValueError
  | ZeroDivisionError
  | OverflowError
  | SystemExit string "string list"

text \<open>\<^verbatim>\<open>str.isspace\<close> on one character: 9..13, 28..32, 0x85 and 0xA0.\<close>

definition py_isspace :: "char \<Rightarrow> bool" where
  "py_isspace c =
     (let n = (of_char c :: nat)
      in (9 \<le> n \<and> n \<le> 13) \<or> (28 \<le> n \<and> n \<le> 32) \<or> n = 133 \<or> n = 160)"

text \<open>\<^verbatim>\<open>s.strip()\<close>\<close>

definition py_strip :: "string \<Rightarrow> string" where
  "py_strip s = rev (dropWhile py_isspace (rev (dropWhile py_isspace s)))"

text \<open>\<^verbatim>\<open>s.lower()\<close>, character by character (A..Z and the upper-case letters of Latin-1).\<close>

definition lower_char :: "char \<Rightarrow> char" where
  "lower_char c =
     (let n = (of_char c :: nat)
      in if (65 \<le> n \<and> n \<le> 90) \<or> (192 \<le> n \<and> n \<le> 214) \<or> (216 \<le> n \<and> n \<le> 222)
         then char_of (n + 32) else c)"

definition py_lower :: "string \<Rightarrow> string" where
  "py_lower s = map lower_char s"

text \<open>\<^verbatim>\<open>s.split(sep)\<close> for a one-character separator: never the empty list.\<close>

fun py_split :: "char \<Rightarrow> string \<Rightarrow> string list" where
  "py_split sep [] = [[]]"
| "py_split sep (c # cs) =
     (if c = sep then [] # py_split sep cs
      else (case py_split sep cs of
              [] \<Rightarrow> [[c]]
            | w # ws \<Rightarrow> (c # w) # ws))"

text \<open>\<^verbatim>\<open>sep.join(xs)\<close>\<close>

fun py_join :: "string \<Rightarrow> string list \<Rightarrow> string" where
  "py_join sep [] = []"
| "py_join sep [x] = x"
| "py_join sep (x # y # ys) = x @ sep @ py_join sep (y # ys)"

text \<open>\<^verbatim>\<open>needle in s\<close> for strings: substring search.\<close>

fun py_contains :: "string \<Rightarrow> string \<Rightarrow> bool" where
  "py_contains needle [] = (needle = [])"
| "py_contains needle (c # cs) =
     (take (length needle) (c # cs) = needle \<or> py_contains needle cs)"

text \<open>The distinct values of a sequence, in the order of their first occurrences.\<close>

definition firsts :: "'a list \<Rightarrow> 'a list" where
  "firsts xs = rev (remdups (rev xs))"

section \<open>mode\<close>

text \<open>
  \<^verbatim>\<open>
  def mode(values):
      vals = [v for v in values if v and str(v).strip()]
      if not vals:
          return ""
      c = Counter(vals).most_common(1)[0][0]
      return c
  \<close>
  A \<^verbatim>\<open>Counter\<close> is a dict: its items stand in the order in which the keys were first
  inserted. \<^verbatim>\<open>most_common(1)\<close> is \<^verbatim>\<open>max(items, key=count)\<close>, which keeps the first
  of several maximal items, in a list of one element (empty for an empty counter).
\<close>

definition nonblank :: "string \<Rightarrow> bool" where
  "nonblank v = (v \<noteq> [] \<and> py_strip v \<noteq> [])"

fun counter_add :: "('a \<times> nat) list \<Rightarrow> 'a \<Rightarrow> ('a \<times> nat) list" where
  "counter_add [] v = [(v, 1)]"
| "counter_add ((k, n) # c) v =
     (if k = v then (k, n + 1) # c else (k, n) # counter_add c v)"

definition Counter :: "'a list \<Rightarrow> ('a \<times> nat) list" where
  "Counter vals = foldl counter_add [] vals"

definition max_step :: "'a \<times> nat \<Rightarrow> 'a \<times> nat \<Rightarrow> 'a \<times> nat" where
  "max_step best y = (if snd best < snd y then y else best)"

fun most_common1 :: "('a \<times> nat) list \<Rightarrow> ('a \<times> nat) list" where
  "most_common1 [] = []"
| "most_common1 (x # xs) = [foldl max_step x xs]"

definition mode :: "string list \<Rightarrow> py_error + string" where
  "mode values =
     (let vals = filter nonblank values
      in if vals = [] then Inr ''''
         else (case most_common1 (Counter vals) of
                 [] \<Rightarrow> Inl IndexError
               | c # _ \<Rightarrow> Inr (fst c)))"

text \<open>The position of the first occurrence of a value in a sequence.\<close>

definition first_index :: "'a list \<Rightarrow> 'a \<Rightarrow> nat" where
  "first_index xs x = length (takeWhile (\<lambda>y. y \<noteq> x) xs)"

section \<open>canonical_days\<close>

definition DAY_ORDER :: "string list" where
  "DAY_ORDER = [''Mo'', ''Tu'', ''We'', ''Th'', ''Fr'', ''Sa'', ''Su'']"

definition DAY_MAP_LONG2ABBR :: "(string \<times> string) list" where
  "DAY_MAP_LONG2ABBR =
     [(''monday'', ''Mo''), (''tuesday'', ''Tu''), (''wednesday'', ''We''),
      (''thursday'', ''Th''), (''friday'', ''Fr''), (''saturday'', ''Sa''),
      (''sunday'', ''Su'')]"

text \<open>
  \<^verbatim>\<open>parts = [p.strip() for p in str(days_str).split(",") if p.strip()]\<close>
\<close>

definition day_parts :: "string \<Rightarrow> string list" where
  "day_parts s = map py_strip (filter (\<lambda>p. py_strip p \<noteq> []) (py_split CHR '','' s))"

text \<open>
  The first loop, over \<^verbatim>\<open>DAY_ORDER\<close>, with its state \<^verbatim>\<open>(abbr, seen)\<close>; the second
  loop, over \<^verbatim>\<open>parts\<close>, reads \<^verbatim>\<open>seen\<close> and appends to \<^verbatim>\<open>abbr\<close>.
\<close>

definition day_loop1 :: "string list \<Rightarrow> string list \<times> string set \<Rightarrow> string \<Rightarrow> string list \<times> string set" where
  "day_loop1 parts st d =
     (case st of (abbr, seen) \<Rightarrow>
        if d \<in> set parts \<and> d \<notin> seen then (abbr @ [d], insert d seen) else (abbr, seen))"

definition day_loop2 :: "string set \<Rightarrow> string list \<Rightarrow> string \<Rightarrow> string list" where
  "day_loop2 seen abbr p = (if p \<notin> seen \<and> length p \<le> 3 then abbr @ [p] else abbr)"

text \<open>\<^verbatim>\<open>",".join(abbr)\<close> after the two loops.\<close>

definition days_from_tokens :: "string \<Rightarrow> string" where
  "days_from_tokens s =
     (let parts = day_parts s;
          (abbr, seen) = foldl (day_loop1 parts) ([], {}) DAY_ORDER;
          abbr' = foldl (day_loop2 seen) abbr parts
      in py_join '','' abbr')"

text \<open>
  The second \<^verbatim>\<open>if\<close>: \<^verbatim>\<open>DAY_MAP_LONG2ABBR.get(...)\<close> and \<^verbatim>\<open>abbr or ""\<close>.
\<close>

definition days_from_fallback :: "string option \<Rightarrow> string" where
  "days_from_fallback fallback_day_long =
     (case fallback_day_long of
        None \<Rightarrow> ''''
      | Some f \<Rightarrow>
          if nonblank f then
            (case map_of DAY_MAP_LONG2ABBR (py_lower (py_strip f)) of
               None \<Rightarrow> ''''
             | Some abbr \<Rightarrow> abbr)
          else '''')"

definition canonical_days :: "string option \<Rightarrow> string option \<Rightarrow> string" where
  "canonical_days days_str fallback_day_long =
     (case days_str of
        None \<Rightarrow> days_from_fallback fallback_day_long
      | Some s \<Rightarrow>
          if nonblank s then days_from_tokens s
          else days_from_fallback fallback_day_long)"

section \<open>norm_time\<close>

text \<open>
  \<^verbatim>\<open>int(s)\<close> for a string, base 10: white space around (the characters 9..13, 32, 0x85,
  0xA0; the separators 28..31, which \<^verbatim>\<open>strip\<close> removes, are refused here), one optional
  sign, then decimal digits with single underscores allowed between digits. CPython (3.11
  and later, and the security releases of the older versions) refuses a text of more than
  \<^verbatim>\<open>sys.get_int_max_str_digits()\<close> digits, 4300 unless the interpreter is started with
  another limit; the leading zeros count, the sign, the white space and the underscores do
  not.
\<close>

definition int_max_str_digits :: nat where
  "int_max_str_digits = 4300"

definition int_space :: "char \<Rightarrow> bool" where
  "int_space c =
     (let n = (of_char c :: nat) in (9 \<le> n \<and> n \<le> 13) \<or> n = 32 \<or> n = 133 \<or> n = 160)"

definition is_digit :: "char \<Rightarrow> bool" where
  "is_digit c = (let n = (of_char c :: nat) in 48 \<le> n \<and> n \<le> 57)"

definition digit_val :: "char \<Rightarrow> nat" where
  "digit_val c = of_char c - 48"

fun int_digits :: "nat \<Rightarrow> string \<Rightarrow> nat option" where
  "int_digits acc [] = Some acc"
| "int_digits acc [c] = (if is_digit c then Some (10 * acc + digit_val c) else None)"
| "int_digits acc (c # d # ds) =
     (if is_digit c then int_digits (10 * acc + digit_val c) (d # ds)
      else if c = CHR ''_'' \<and> is_digit d then int_digits (10 * acc + digit_val d) ds
      else None)"

definition py_int :: "string \<Rightarrow> py_error + int" where
  "py_int s =
     (let t = rev (dropWhile int_space (rev (dropWhile int_space s)));
          (neg, u) = (case t of
                        [] \<Rightarrow> (False, [])
                      | c # cs \<Rightarrow>
                          if c = CHR ''-'' then (True, cs)
                          else if c = CHR ''+'' then (False, cs)
                          else (False, t))
      in case u of
           [] \<Rightarrow> Inl ValueError
         | d # ds \<Rightarrow>
             if is_digit d then
               (case int_digits (digit_val d) ds of
                  None \<Rightarrow> Inl ValueError
                | Some n \<Rightarrow>
                    if int_max_str_digits < length (filter is_digit u) then Inl ValueError
                    else Inr (if neg then - int n else int n))
             else Inl ValueError)"

text \<open>Decimal digits of a natural number, and the format \<^verbatim>\<open>{n:0Wd}\<close> of an integer.\<close>

fun show_nat :: "nat \<Rightarrow> string" where
  "show_nat n =
     (if n < 10 then [char_of (48 + n)]
      else show_nat (n div 10) @ [char_of (48 + n mod 10)])"

declare show_nat.simps [simp del]

definition fmt_0d :: "nat \<Rightarrow> int \<Rightarrow> string" where
  "fmt_0d width n =
     (if n < 0 then
        (let d = show_nat (nat (- n)) in CHR ''-'' # replicate (width - 1 - length d) CHR ''0'' @ d)
      else
        (let d = show_nat (nat n) in replicate (width - length d) CHR ''0'' @ d))"

text \<open>
  The \<^verbatim>\<open>try\<close> block of the 24-hour form. \<open>Inr (Some r)\<close>: the block returned \<open>r\<close>;
  \<open>Inr None\<close>: it ended without returning; \<open>Inl e\<close>: it raised \<open>e\<close> (the unpacking of
  a split that has not two parts, \<^verbatim>\<open>int\<close>, or the explicit \<^verbatim>\<open>raise ValueError\<close>).
\<close>

definition try_24h :: "string \<Rightarrow> py_error + string option" where
  "try_24h s =
     (case py_split CHR '':'' s of
        [hh, mm] \<Rightarrow>
          (case py_int hh of
             Inl e \<Rightarrow> Inl e
           | Inr h \<Rightarrow>
               if py_contains ''am'' (py_lower s) \<or> py_contains ''pm'' (py_lower s) then Inl ValueError
               else if 0 \<le> h \<and> h \<le> 23 then
                 (case py_int mm of
                    Inl e \<Rightarrow> Inl e
                  | Inr m \<Rightarrow> Inr (Some (fmt_0d 2 h @ '':'' @ fmt_0d 2 m)))
               else Inr None)
      | _ \<Rightarrow> Inl ValueError)"

text \<open>
  \<^verbatim>\<open>datetime.strptime(s, fmt)\<close> matches \<open>s\<close> against a regular expression made from the
  format, ignoring case, in the C locale:
  \<^verbatim>\<open>(?P<I>1[0-2]|0[1-9]|[1-9]):(?P<M>[0-5]\d|\d)\s+(?P<p>am|pm)\<close> for \<^verbatim>\<open>"%I:%M %p"\<close> and
  \<^verbatim>\<open>(?P<I>1[0-2]|0[1-9]|[1-9])\s+(?P<p>am|pm)\<close> for \<^verbatim>\<open>"%I %p"\<close>.
  Each piece of the expression is modelled by the list of its matches at the start of a
  string, in the order in which the backtracking matcher tries them, each with the rest of
  the string; the match found is the first of the combined list. Text left after the match
  is a \<^verbatim>\<open>ValueError\<close>.
\<close>

definition re_I :: "string \<Rightarrow> (nat \<times> string) list" where
  "re_I s =
     (case s of
        c1 # c2 # r \<Rightarrow>
          (if c1 = CHR ''1'' \<and> (c2 = CHR ''0'' \<or> c2 = CHR ''1'' \<or> c2 = CHR ''2'')
           then [(10 + digit_val c2, r)] else []) @
          (if c1 = CHR ''0'' \<and> is_digit c2 \<and> c2 \<noteq> CHR ''0'' then [(digit_val c2, r)] else [])
      | _ \<Rightarrow> []) @
     (case s of
        c1 # r \<Rightarrow> if is_digit c1 \<and> c1 \<noteq> CHR ''0'' then [(digit_val c1, r)] else []
      | [] \<Rightarrow> [])"

definition re_M :: "string \<Rightarrow> (nat \<times> string) list" where
  "re_M s =
     (case s of
        c1 # c2 # r \<Rightarrow>
          if is_digit c1 \<and> digit_val c1 \<le> 5 \<and> is_digit c2
          then [(10 * digit_val c1 + digit_val c2, r)] else []
      | _ \<Rightarrow> []) @
     (case s of
        c1 # r \<Rightarrow> if is_digit c1 then [(digit_val c1, r)] else []
      | [] \<Rightarrow> [])"

fun re_spaces :: "string \<Rightarrow> string list" where
  "re_spaces [] = []"
| "re_spaces (c # cs) = (if py_isspace c then re_spaces cs @ [cs] else [])"

definition re_p :: "string \<Rightarrow> (bool \<times> string) list" where
  "re_p s =
     (case s of
        c1 # c2 # r \<Rightarrow>
          (if lower_char c1 = CHR ''a'' \<and> lower_char c2 = CHR ''m'' then [(False, r)] else []) @
          (if lower_char c1 = CHR ''p'' \<and> lower_char c2 = CHR ''m'' then [(True, r)] else [])
      | _ \<Rightarrow> [])"

definition re_lit :: "char \<Rightarrow> string \<Rightarrow> string list" where
  "re_lit c s = (case s of [] \<Rightarrow> [] | x # r \<Rightarrow> if x = c then [r] else [])"

definition match_I_M_p :: "string \<Rightarrow> (nat \<times> nat \<times> bool \<times> string) list" where
  "match_I_M_p s =
     [(h, m, pm, r5).
        (h, r1) \<leftarrow> re_I s, r2 \<leftarrow> re_lit CHR '':'' r1, (m, r3) \<leftarrow> re_M r2,
        r4 \<leftarrow> re_spaces r3, (pm, r5) \<leftarrow> re_p r4]"

definition match_I_p :: "string \<Rightarrow> (nat \<times> nat \<times> bool \<times> string) list" where
  "match_I_p s =
     [(h, 0, pm, r3). (h, r1) \<leftarrow> re_I s, r2 \<leftarrow> re_spaces r1, (pm, r3) \<leftarrow> re_p r2]"

text \<open>The hour of the 12-hour clock with its meridiem, as \<^verbatim>\<open>_strptime\<close> converts it.\<close>

definition hour24 :: "nat \<Rightarrow> bool \<Rightarrow> nat" where
  "hour24 h pm = (if pm then (if h \<noteq> 12 then h + 12 else h) else (if h = 12 then 0 else h))"

definition strptime :: "(nat \<times> nat \<times> bool \<times> string) list \<Rightarrow> py_error + nat \<times> nat" where
  "strptime found =
     (case found of
        [] \<Rightarrow> Inl ValueError
      | (h, m, pm, rest) # _ \<Rightarrow> if rest \<noteq> [] then Inl ValueError else Inr (hour24 h pm, m))"

text \<open>\<^verbatim>\<open>dt.strftime("%H:%M")\<close>\<close>

definition strftime_H_M :: "nat \<times> nat \<Rightarrow> string" where
  "strftime_H_M hm = fmt_0d 2 (int (fst hm)) @ '':'' @ fmt_0d 2 (int (snd hm))"

text \<open>
  \<^verbatim>\<open>
  def norm_time(t):
      """Normalize times like '7:00 AM' or '07:00' to 'HH:MM'. Unknown -> ''."""
      if t is None:
          return ""
      s = str(t).strip()
      if not s or s.lower() in {"nan", "none"}:
          return ""
      try: ... (the 24-hour form)
      except Exception:
          pass
      for fmt in ("%I:%M %p", "%I %p"):
          try:
              dt = _dt.datetime.strptime(s, fmt)
              return dt.strftime("%H:%M")
          except ValueError:
              continue
      return s
  \<close>
  \<^verbatim>\<open>except Exception\<close> catches every error of the first block; the loop catches
  \<^verbatim>\<open>ValueError\<close> only, any other error leaves the function.
\<close>

definition norm_time :: "string option \<Rightarrow> py_error + string" where
  "norm_time t =
     (case t of
        None \<Rightarrow> Inr ''''
      | Some t' \<Rightarrow>
          (let s = py_strip t'
           in if s = [] \<or> py_lower s \<in> {''nan'', ''none''} then Inr ''''
              else (case try_24h s of
                      Inr (Some r) \<Rightarrow> Inr r
                    | _ \<Rightarrow>
                       (case strptime (match_I_M_p s) of
                          Inr hm \<Rightarrow> Inr (strftime_H_M hm)
                        | Inl e \<Rightarrow>
                            if e \<noteq> ValueError then Inl e
                            else (case strptime (match_I_p s) of
                                    Inr hm \<Rightarrow> Inr (strftime_H_M hm)
                                  | Inl e' \<Rightarrow> if e' \<noteq> ValueError then Inl e' else Inr s)))))"

section \<open>JSON text of dicts of strings\<close>

text \<open>
  A Python dict with string keys and string values is modelled by the list of its items in
  insertion order, with distinct keys. \<^verbatim>\<open>d[k] = v\<close> replaces the value of a key that is
  present, where it stands, and appends a new key at the end.
\<close>

type_synonym pydict = "(string \<times> string) list"

fun dict_set :: "pydict \<Rightarrow> string \<Rightarrow> string \<Rightarrow> pydict" where
  "dict_set [] k v = [(k, v)]"
| "dict_set ((k', v') # d) k v = (if k' = k then (k, v) # d else (k', v') # dict_set d k v)"

abbreviation DQUOTE :: char where "DQUOTE \<equiv> CHR 0x22"
abbreviation BSLASH :: char where "BSLASH \<equiv> CHR 0x5C"

definition hex_digit :: "nat \<Rightarrow> char" where
  "hex_digit n = (if n < 10 then char_of (48 + n) else char_of (87 + n))"

text \<open>
  The escapes of \<^verbatim>\<open>json.encoder\<close>: \<^verbatim>\<open>ESCAPE_DCT\<close> for the backslash, the double quote and
  the control characters, \<^verbatim>\<open>\u00XX\<close> for the other characters that are escaped. With
  \<^verbatim>\<open>ensure_ascii\<close> every character outside \<^verbatim>\<open>' '..'~'\<close> is escaped, without it the
  characters below 0x20 only.
\<close>

definition u_escape :: "char \<Rightarrow> string" where
  "u_escape c =
     [BSLASH, CHR ''u'', CHR ''0'', CHR ''0'',
      hex_digit ((of_char c :: nat) div 16), hex_digit ((of_char c :: nat) mod 16)]"

definition json_escape :: "bool \<Rightarrow> char \<Rightarrow> string" where
  "json_escape ensure_ascii c =
     (let n = (of_char c :: nat)
      in if c = BSLASH then [BSLASH, BSLASH]
         else if c = DQUOTE then [BSLASH, DQUOTE]
         else if c = CHR 0x08 then [BSLASH, CHR ''b'']
         else if c = CHR 0x0C then [BSLASH, CHR ''f'']
         else if c = CHR 0x0A then [BSLASH, CHR ''n'']
         else if c = CHR 0x0D then [BSLASH, CHR ''r'']
         else if c = CHR 0x09 then [BSLASH, CHR ''t'']
         else if n < 32 then u_escape c
         else if ensure_ascii \<and> 126 < n then u_escape c
         else [c])"

definition json_str :: "bool \<Rightarrow> string \<Rightarrow> string" where
  "json_str ensure_ascii s = DQUOTE # concat (map (json_escape ensure_ascii) s) @ [DQUOTE]"

text \<open>
  \<^verbatim>\<open>json.dumps(d, sort_keys=..., ensure_ascii=...)\<close> for a dict and for a list of dicts,
  with the default separators \<^verbatim>\<open>", "\<close> and \<^verbatim>\<open>": "\<close>. \<^verbatim>\<open>sort_keys\<close> sorts the items
  by key.
\<close>

definition json_item :: "bool \<Rightarrow> string \<times> string \<Rightarrow> string" where
  "json_item ensure_ascii kv = json_str ensure_ascii (fst kv) @ '': '' @ json_str ensure_ascii (snd kv)"

definition json_dumps_dict :: "bool \<Rightarrow> bool \<Rightarrow> pydict \<Rightarrow> string" where
  "json_dumps_dict sort_keys ensure_ascii d =
     ''{'' @ py_join '', '' (map (json_item ensure_ascii) (if sort_keys then sort_key fst d else d)) @ ''}''"

definition json_dumps_list :: "bool \<Rightarrow> bool \<Rightarrow> pydict list \<Rightarrow> string" where
  "json_dumps_list sort_keys ensure_ascii ds =
     ''['' @ py_join '', '' (map (json_dumps_dict sort_keys ensure_ascii) ds) @ '']''"

text \<open>
  \<^verbatim>\<open>json.loads\<close>, for the texts that are one JSON object whose values are strings (any
  other JSON text is outside the model and gives the error too). \<open>scanstring\<close> reads a
  string after its opening quote and returns it with the text after the closing quote;
  control characters are refused, \<^verbatim>\<open>\uXXXX\<close> above 255 is outside the model.
\<close>

definition hex_val :: "char \<Rightarrow> nat option" where
  "hex_val c =
     (let n = (of_char c :: nat)
      in if 48 \<le> n \<and> n \<le> 57 then Some (n - 48)
         else if 97 \<le> n \<and> n \<le> 102 then Some (n - 87)
         else if 65 \<le> n \<and> n \<le> 70 then Some (n - 55)
         else None)"

definition unescape :: "char \<Rightarrow> char option" where
  "unescape e =
     (if e = DQUOTE then Some DQUOTE
      else if e = BSLASH then Some BSLASH
      else if e = CHR ''/'' then Some CHR ''/''
      else if e = CHR ''b'' then Some (CHR 0x08)
      else if e = CHR ''f'' then Some (CHR 0x0C)
      else if e = CHR ''n'' then Some (CHR 0x0A)
      else if e = CHR ''r'' then Some (CHR 0x0D)
      else if e = CHR ''t'' then Some (CHR 0x09)
      else None)"

definition hex4 :: "char \<Rightarrow> char \<Rightarrow> char \<Rightarrow> char \<Rightarrow> nat option" where
  "hex4 h1 h2 h3 h4 =
     (case (hex_val h1, hex_val h2, hex_val h3, hex_val h4) of
        (Some a, Some b, Some c, Some d) \<Rightarrow> Some (((a * 16 + b) * 16 + c) * 16 + d)
      | _ \<Rightarrow> None)"

definition cons_fst :: "char \<Rightarrow> (string \<times> string) option \<Rightarrow> (string \<times> string) option" where
  "cons_fst c r = (case r of None \<Rightarrow> None | Some (s, t) \<Rightarrow> Some (c # s, t))"

fun scanstring :: "string \<Rightarrow> (string \<times> string) option" where
  "scanstring [] = None"
| "scanstring (c # cs) =
     (if c = DQUOTE then Some ([], cs)
      else if c = BSLASH then
        (case cs of
           [] \<Rightarrow> None
         | e # r \<Rightarrow>
             if e = CHR ''u'' then
               (case r of
                  h1 # h2 # h3 # h4 # r' \<Rightarrow>
                    (case hex4 h1 h2 h3 h4 of
                       None \<Rightarrow> None
                     | Some n \<Rightarrow> if n < 256 then cons_fst (char_of n) (scanstring r') else None)
                | _ \<Rightarrow> None)
             else (case unescape e of
                     None \<Rightarrow> None
                   | Some x \<Rightarrow> cons_fst x (scanstring r)))
      else if (of_char c :: nat) < 32 then None
      else cons_fst c (scanstring cs))"

definition json_ws :: "char \<Rightarrow> bool" where
  "json_ws c = (c = CHR '' '' \<or> c = CHR 0x09 \<or> c = CHR 0x0A \<or> c = CHR 0x0D)"

definition skip_ws :: "string \<Rightarrow> string" where
  "skip_ws s = dropWhile json_ws s"

text \<open>A quoted string at the start of a text.\<close>

definition quoted :: "string \<Rightarrow> (string \<times> string) option" where
  "quoted s = (case s of [] \<Rightarrow> None | c # r \<Rightarrow> if c = DQUOTE then scanstring r else None)"

lemma scanstring_shorter: "scanstring s = Some (x, t) \<Longrightarrow> length t < length s"
proof (induction s arbitrary: x t rule: scanstring.induct)
  case 1
  then show ?case by simp
next
  case (2 c cs)
  then show ?case
    by (auto simp: cons_fst_def split: if_splits list.splits option.splits) fastforce+
qed

lemma quoted_shorter: "quoted s = Some (x, t) \<Longrightarrow> length t < length s"
  by (auto simp: quoted_def split: list.splits if_splits dest: scanstring_shorter)

lemma skip_ws_length: "length (skip_ws s) \<le> length s"
  by (simp add: skip_ws_def length_dropWhile_le)

text \<open>
  The members of an object, from the first key on: \<^verbatim>\<open>"key" : "value"\<close>, then a comma and
  the next member, or the closing brace.
\<close>

function members :: "pydict \<Rightarrow> string \<Rightarrow> (pydict \<times> string) option" where
  "members acc s =
     (case quoted s of
        None \<Rightarrow> None
      | Some (k, r1) \<Rightarrow>
          (case skip_ws r1 of
             [] \<Rightarrow> None
           | c # r2 \<Rightarrow>
               if c \<noteq> CHR '':'' then None
               else (case quoted (skip_ws r2) of
                       None \<Rightarrow> None
                     | Some (v, r3) \<Rightarrow>
                         (case skip_ws r3 of
                            [] \<Rightarrow> None
                          | c' # r4 \<Rightarrow>
                              if c' = CHR '','' then members (dict_set acc k v) (skip_ws r4)
                              else if c' = CHR ''}'' then Some (dict_set acc k v, r4)
                              else None))))"
  by pat_completeness auto
termination
proof (relation "measure (\<lambda>(acc, s). length s)", goal_cases)
  case 1
  then show ?case by simp
next
  case (2 acc s x k r1 c r2 x' v r3 c' r4)
  have "length r1 < length s" using 2 by (auto dest: quoted_shorter)
  moreover have "length r2 < length (skip_ws r1)" using 2 by simp
  moreover have "length r3 < length (skip_ws r2)" using 2 by (auto dest: quoted_shorter)
  moreover have "length r4 < length (skip_ws r3)" using 2 by simp
  ultimately show ?case
    using skip_ws_length[of r1] skip_ws_length[of r2] skip_ws_length[of r3] skip_ws_length[of r4]
    by simp
qed

definition json_object :: "string \<Rightarrow> (pydict \<times> string) option" where
  "json_object s =
     (case s of
        [] \<Rightarrow> None
      | c # r \<Rightarrow>
          if c \<noteq> CHR ''{'' then None
          else (case skip_ws r of
                  [] \<Rightarrow> None
                | c' # r' \<Rightarrow> if c' = CHR ''}'' then Some ([], r') else members [] (skip_ws r)))"

definition json_loads :: "string \<Rightarrow> py_error + pydict" where
  "json_loads s =
     (case json_object (skip_ws s) of
        None \<Rightarrow> Inl ValueError
      | Some (d, rest) \<Rightarrow> if skip_ws rest = [] then Inr d else Inl ValueError)"

section \<open>UTF-8 and SHA-1\<close>

text \<open>
  \<^verbatim>\<open>raw.encode("utf-8")\<close>: one byte for a code point below 128, two bytes for the code
  points 128..255.
\<close>

definition utf8_char :: "char \<Rightarrow> nat list" where
  "utf8_char c =
     (let n = (of_char c :: nat)
      in if n < 128 then [n] else [192 + n div 64, 128 + n mod 64])"

definition utf8_encode :: "string \<Rightarrow> 8 word list" where
  "utf8_encode s = map of_nat (concat (map utf8_char s))"

text \<open>
  \<^verbatim>\<open>hashlib.sha1\<close> is the SHA-1 function of FIPS 180-4, on 32-bit words: the message is
  padded with the byte 0x80, zero bytes and its length in bits as 64 bits, to a multiple of
  64 bytes; each block of 16 big-endian words is extended to 80 words and run through 80
  rounds.
\<close>

definition be64 :: "64 word \<Rightarrow> 8 word list" where
  "be64 w = map (\<lambda>i. ucast (drop_bit (8 * i) w)) [7, 6, 5, 4, 3, 2, 1, 0]"

definition sha1_pad :: "8 word list \<Rightarrow> 8 word list" where
  "sha1_pad m =
     m @ [0x80] @ replicate ((119 - length m mod 64) mod 64) 0 @ be64 (of_nat (8 * length m))"

fun be32_words :: "8 word list \<Rightarrow> 32 word list" where
  "be32_words (a # b # c # d # r) =
     (push_bit 24 (ucast a) OR push_bit 16 (ucast b) OR push_bit 8 (ucast c) OR ucast d)
       # be32_words r"
| "be32_words _ = []"

fun sha1_schedule :: "nat \<Rightarrow> 32 word list \<Rightarrow> 32 word list" where
  "sha1_schedule 0 w = w"
| "sha1_schedule (Suc n) w =
     (let t = length w
      in sha1_schedule n
           (w @ [word_rotl 1 (w ! (t - 3) XOR w ! (t - 8) XOR w ! (t - 14) XOR w ! (t - 16))]))"

definition sha1_f :: "nat \<Rightarrow> 32 word \<Rightarrow> 32 word \<Rightarrow> 32 word \<Rightarrow> 32 word" where
  "sha1_f t b c d =
     (if t < 20 then (b AND c) OR (NOT b AND d)
      else if t < 40 then b XOR c XOR d
      else if t < 60 then (b AND c) OR (b AND d) OR (c AND d)
      else b XOR c XOR d)"

definition sha1_k :: "nat \<Rightarrow> 32 word" where
  "sha1_k t =
     (if t < 20 then 0x5A827999
      else if t < 40 then 0x6ED9EBA1
      else if t < 60 then 0x8F1BBCDC
      else 0xCA62C1D6)"

type_synonym sha1_state = "32 word \<times> 32 word \<times> 32 word \<times> 32 word \<times> 32 word"

definition sha1_round :: "32 word list \<Rightarrow> sha1_state \<Rightarrow> nat \<Rightarrow> sha1_state" where
  "sha1_round w st t =
     (case st of (a, b, c, d, e) \<Rightarrow>
        (word_rotl 5 a + sha1_f t b c d + e + sha1_k t + w ! t, a, word_rotl 30 b, c, d))"

definition sha1_block :: "sha1_state \<Rightarrow> 8 word list \<Rightarrow> sha1_state" where
  "sha1_block h blk =
     (let w = sha1_schedule 64 (be32_words blk)
      in case (h, foldl (sha1_round w) h [0..<80]) of
           ((h0, h1, h2, h3, h4), (a, b, c, d, e)) \<Rightarrow> (h0 + a, h1 + b, h2 + c, h3 + d, h4 + e))"

fun sha1_blocks :: "sha1_state \<Rightarrow> 8 word list \<Rightarrow> sha1_state" where
  "sha1_blocks h m =
     (if length m < 64 then h else sha1_blocks (sha1_block h (take 64 m)) (drop 64 m))"

definition sha1 :: "8 word list \<Rightarrow> sha1_state" where
  "sha1 m =
     sha1_blocks (0x67452301, 0xEFCDAB89, 0x98BADCFE, 0x10325476, 0xC3D2E1F0) (sha1_pad m)"

text \<open>\<^verbatim>\<open>.hexdigest()\<close>: 8 lower-case hexadecimal digits for each of the five words.\<close>

definition hex32 :: "32 word \<Rightarrow> string" where
  "hex32 w = map (\<lambda>i. hex_digit (unat (drop_bit (4 * i) w AND 0xF))) [7, 6, 5, 4, 3, 2, 1, 0]"

definition sha1_hexdigest :: "8 word list \<Rightarrow> string" where
  "sha1_hexdigest m =
     (case sha1 m of (h0, h1, h2, h3, h4) \<Rightarrow> hex32 h0 @ hex32 h1 @ hex32 h2 @ hex32 h3 @ hex32 h4)"

section \<open>build_schedule_signature\<close>

text \<open>
  A row of the data frame is read with \<^verbatim>\<open>r.get(f)\<close>: \<open>None\<close> when the frame has no
  column \<open>f\<close>, else the text of the cell (\<^verbatim>\<open>read_csv(dtype=str, keep_default_na=False)\<close>
  makes every cell a string; for the two coordinate columns, which \<^verbatim>\<open>main\<close> converts to
  floats, the text stands for \<^verbatim>\<open>str\<close> of the float).
\<close>

type_synonym row = "string \<Rightarrow> string option"

text \<open>The value stored for one field \<open>f\<close> of the field list.\<close>

definition field_value :: "row \<Rightarrow> string \<Rightarrow> string \<Rightarrow> py_error + string" where
  "field_value r days f =
     (if f = ''days'' then Inr days
      else if f = ''from_time'' then norm_time (r ''from_time'')
      else if f = ''to_time'' then norm_time (r ''to_time'')
      else (case r f of None \<Rightarrow> Inr '''' | Some v \<Rightarrow> Inr v))"

text \<open>The loop \<^verbatim>\<open>for f in fields\<close>, filling \<^verbatim>\<open>rec\<close>.\<close>

fun build_rec :: "row \<Rightarrow> string \<Rightarrow> string list \<Rightarrow> pydict \<Rightarrow> py_error + pydict" where
  "build_rec r days [] rec = Inr rec"
| "build_rec r days (f # fs) rec =
     (case field_value r days f of
        Inl e \<Rightarrow> Inl e
      | Inr v \<Rightarrow> build_rec r days fs (dict_set rec f v))"

definition row_entry :: "string list \<Rightarrow> row \<Rightarrow> py_error + pydict" where
  "row_entry fields r = build_rec r (canonical_days (r ''days'') (r ''day'')) fields []"

text \<open>A loop whose body may raise: the first error ends it.\<close>

fun map_result :: "('a \<Rightarrow> py_error + 'b) \<Rightarrow> 'a list \<Rightarrow> py_error + 'b list" where
  "map_result f [] = Inr []"
| "map_result f (x # xs) =
     (case f x of
        Inl e \<Rightarrow> Inl e
      | Inr y \<Rightarrow> (case map_result f xs of Inl e \<Rightarrow> Inl e | Inr ys \<Rightarrow> Inr (y # ys)))"

text \<open>
  \<^verbatim>\<open>
  uniq = {json.dumps(e, sort_keys=True) for e in entries}
  entries_sorted = [json.loads(s) for s in sorted(uniq)]
  raw = json.dumps(entries_sorted, sort_keys=True, ensure_ascii=False)
  h = hashlib.sha1(raw.encode("utf-8")).hexdigest()
  return h, entries_sorted
  \<close>
\<close>

definition canonical_entries :: "row list \<Rightarrow> string list \<Rightarrow> py_error + pydict list" where
  "canonical_entries meter_df fields =
     (case map_result (row_entry fields) meter_df of
        Inl e \<Rightarrow> Inl e
      | Inr entries \<Rightarrow>
          (let uniq = set (map (json_dumps_dict True True) entries)
           in map_result json_loads (sorted_list_of_set uniq)))"

definition signature_raw :: "pydict list \<Rightarrow> 8 word list" where
  "signature_raw entries_sorted = utf8_encode (json_dumps_list True False entries_sorted)"

definition build_schedule_signature :: "row list \<Rightarrow> string list \<Rightarrow> py_error + string \<times> pydict list" where
  "build_schedule_signature meter_df fields =
     (case canonical_entries meter_df fields of
        Inl e \<Rightarrow> Inl e
      | Inr entries_sorted \<Rightarrow>
          Inr (sha1_hexdigest (signature_raw entries_sorted), entries_sorted))"

text \<open>The record built for one row, when the row raises nothing.\<close>

definition entry_of :: "string list \<Rightarrow> row \<Rightarrow> pydict" where
  "entry_of fields r = (case row_entry fields r of Inl e \<Rightarrow> [] | Inr rec \<Rightarrow> rec)"

text \<open>What follows a dict in the text of a list of dicts.\<close>

definition list_tail :: "bool \<Rightarrow> bool \<Rightarrow> pydict list \<Rightarrow> string" where
  "list_tail sk b ds =
     (case ds of [] \<Rightarrow> '']'' | _ \<Rightarrow> '', '' @ py_join '', '' (map (json_dumps_dict sk b) ds) @ '']'')"

section \<open>Floating-point numbers and haversine_m\<close>

text \<open>
  The floats of Python are IEEE doubles, and the functions of \<^verbatim>\<open>math\<close> are those of the C
  library, with their rounding. Neither is defined here: a float is a value of a type
  \<open>'f\<close>, and the operations that the program uses are the fields of an \<open>arith\<close>, which
  every definition and every property takes as it is given. An operation that can raise
  returns an error or a float: \<^verbatim>\<open>x / y\<close> (\<^verbatim>\<open>ZeroDivisionError\<close>), \<^verbatim>\<open>x ** 2\<close>
  (\<^verbatim>\<open>OverflowError\<close>), and \<^verbatim>\<open>math.sin\<close>, \<^verbatim>\<open>math.cos\<close>, \<^verbatim>\<open>math.sqrt\<close>, \<^verbatim>\<open>math.asin\<close>
  (\<^verbatim>\<open>ValueError\<close>, for an infinite argument or one outside the domain). \<open>fl_of_int\<close> is
  the float of an integer literal, \<open>fl_radians\<close> is \<^verbatim>\<open>math.radians\<close>, \<open>fl_round2\<close> is
  \<^verbatim>\<open>round(x, 2)\<close>, and \<open>fl_le\<close> and \<open>fl_lt\<close> are \<^verbatim>\<open><=\<close> and \<^verbatim>\<open><\<close>.
\<close>

datatype 'f arith = Arith
  (fl_of_int: "int \<Rightarrow> 'f")
  (fl_add: "'f \<Rightarrow> 'f \<Rightarrow> 'f")
  (fl_sub: "'f \<Rightarrow> 'f \<Rightarrow> 'f")
  (fl_mul: "'f \<Rightarrow> 'f \<Rightarrow> 'f")
  (fl_div: "'f \<Rightarrow> 'f \<Rightarrow> py_error + 'f")
  (fl_square: "'f \<Rightarrow> py_error + 'f")
  (fl_radians: "'f \<Rightarrow> 'f")
  (fl_sin: "'f \<Rightarrow> py_error + 'f")
  (fl_cos: "'f \<Rightarrow> py_error + 'f")
  (fl_sqrt: "'f \<Rightarrow> py_error + 'f")
  (fl_asin: "'f \<Rightarrow> py_error + 'f")
  (fl_round2: "'f \<Rightarrow> 'f")
  (fl_le: "'f \<Rightarrow> 'f \<Rightarrow> bool")
  (fl_lt: "'f \<Rightarrow> 'f \<Rightarrow> bool")

text \<open>The value of an expression whose first part may raise.\<close>

definition and_then :: "py_error + 'a \<Rightarrow> ('a \<Rightarrow> py_error + 'b) \<Rightarrow> py_error + 'b" where
  "and_then m f = (case m of Inl e \<Rightarrow> Inl e | Inr v \<Rightarrow> f v)"

definition EARTH_RADIUS_M :: "'f arith \<Rightarrow> 'f" where
  "EARTH_RADIUS_M fa = fl_of_int fa 6371000"

text \<open>
  \<^verbatim>\<open>
  def haversine_m(lat1, lon1, lat2, lon2):
      phi1, phi2 = math.radians(lat1), math.radians(lat2)
      dphi = phi2 - phi1
      dlambda = math.radians(lon2 - lon1)
      a = math.sin(dphi / 2)**2 + math.cos(phi1) * math.cos(phi2) * math.sin(dlambda / 2)**2
      return 2 * EARTH_RADIUS_M * math.asin(math.sqrt(a))
  \<close>
  The operations that can raise are taken in the order in which Python evaluates them.
\<close>

definition haversine_m :: "'f arith \<Rightarrow> 'f \<Rightarrow> 'f \<Rightarrow> 'f \<Rightarrow> 'f \<Rightarrow> py_error + 'f" where
  "haversine_m fa lat1 lon1 lat2 lon2 =
     (let phi1 = fl_radians fa lat1; phi2 = fl_radians fa lat2;
          dphi = fl_sub fa phi2 phi1;
          dlambda = fl_radians fa (fl_sub fa lon2 lon1)
      in and_then (fl_div fa dphi (fl_of_int fa 2)) (\<lambda>half_dphi.
         and_then (fl_sin fa half_dphi) (\<lambda>sin_dphi.
         and_then (fl_square fa sin_dphi) (\<lambda>sin2_dphi.
         and_then (fl_cos fa phi1) (\<lambda>cos_phi1.
         and_then (fl_cos fa phi2) (\<lambda>cos_phi2.
         and_then (fl_div fa dlambda (fl_of_int fa 2)) (\<lambda>half_dlambda.
         and_then (fl_sin fa half_dlambda) (\<lambda>sin_dlambda.
         and_then (fl_square fa sin_dlambda) (\<lambda>sin2_dlambda.
         and_then (fl_sqrt fa (fl_add fa sin2_dphi (fl_mul fa (fl_mul fa cos_phi1 cos_phi2) sin2_dlambda)))
           (\<lambda>root.
         and_then (fl_asin fa root) (\<lambda>angle.
           Inr (fl_mul fa (fl_mul fa (fl_of_int fa 2) (EARTH_RADIUS_M fa)) angle))))))))))))"

section \<open>UnionFind and cluster_points_haversine\<close>

text \<open>
  A computation that may raise, and may not return: \<open>None\<close> is a loop that never ends,
  \<open>Some (Inl e)\<close> the error \<open>e\<close>, \<open>Some (Inr v)\<close> the value \<open>v\<close>.
\<close>

type_synonym 'a res = "(py_error + 'a) option"

definition ret :: "'a \<Rightarrow> 'a res" where
  "ret v = Some (Inr v)"

definition raise :: "py_error \<Rightarrow> 'a res" where
  "raise e = Some (Inl e)"

definition bind_res :: "'a res \<Rightarrow> ('a \<Rightarrow> 'b res) \<Rightarrow> 'b res" where
  "bind_res m f = (case m of None \<Rightarrow> None | Some (Inl e) \<Rightarrow> Some (Inl e) | Some (Inr v) \<Rightarrow> f v)"

text \<open>A \<^verbatim>\<open>for\<close> loop over a list, with the state it updates.\<close>

fun for_each :: "'a list \<Rightarrow> ('s \<Rightarrow> 'a \<Rightarrow> 's res) \<Rightarrow> 's \<Rightarrow> 's res" where
  "for_each [] body s = ret s"
| "for_each (x # xs) body s = bind_res (body s x) (for_each xs body)"

text \<open>\<^verbatim>\<open>xs[i]\<close> and \<^verbatim>\<open>xs[i] = v\<close> for an index that is not negative.\<close>

definition nth_res :: "'a list \<Rightarrow> nat \<Rightarrow> 'a res" where
  "nth_res xs i = (if i < length xs then ret (xs ! i) else raise IndexError)"

definition update_res :: "'a list \<Rightarrow> nat \<Rightarrow> 'a \<Rightarrow> 'a list res" where
  "update_res xs i v = (if i < length xs then ret (xs[i := v]) else raise IndexError)"

text \<open>
  \<^verbatim>\<open>
  class UnionFind:
      def __init__(self, n):
          self.p = list(range(n))
          self.r = [0]*n
      def find(self, x):
          while self.p[x] != x:
              self.p[x] = self.p[self.p[x]]
              x = self.p[x]
          return x
  \<close>
  The fields \<^verbatim>\<open>p\<close> and \<^verbatim>\<open>r\<close> are \<open>uf_p\<close> and \<open>uf_r\<close>. The loop of \<^verbatim>\<open>find\<close> is
  \<open>find_loop\<close>: it returns the parent list it has updated, and the last \<^verbatim>\<open>x\<close>.
\<close>

datatype UnionFind = UnionFind (uf_p: "nat list") (uf_r: "nat list")

definition UnionFind_init :: "nat \<Rightarrow> UnionFind" where
  "UnionFind_init n = UnionFind [0..<n] (replicate n 0)"

partial_function (option) find_loop :: "nat list \<Rightarrow> nat \<Rightarrow> (nat list \<times> nat) res" where
  "find_loop p x =
     (if \<not> x < length p then Some (Inl IndexError)
      else if p ! x = x then Some (Inr (p, x))
      else if \<not> p ! x < length p then Some (Inl IndexError)
      else find_loop (p[x := p ! (p ! x)]) (p ! (p ! x)))"

declare find_loop.simps [code]

definition uf_find :: "UnionFind \<Rightarrow> nat \<Rightarrow> (UnionFind \<times> nat) res" where
  "uf_find uf x = bind_res (find_loop (uf_p uf) x) (\<lambda>(p', x'). ret (UnionFind p' (uf_r uf), x'))"

text \<open>
  \<^verbatim>\<open>
      def union(self, a, b):
          ra, rb = self.find(a), self.find(b)
          if ra == rb: return
          if self.r[ra] < self.r[rb]:
              self.p[ra] = rb
          elif self.r[ra] > self.r[rb]:
              self.p[rb] = ra
          else:
              self.p[rb] = ra
              self.r[ra] += 1
  \<close>
\<close>

definition uf_union :: "UnionFind \<Rightarrow> nat \<Rightarrow> nat \<Rightarrow> UnionFind res" where
  "uf_union uf a b =
     bind_res (uf_find uf a) (\<lambda>(uf1, ra).
     bind_res (uf_find uf1 b) (\<lambda>(uf2, rb).
       if ra = rb then ret uf2
       else
         bind_res (nth_res (uf_r uf2) ra) (\<lambda>rank_a.
         bind_res (nth_res (uf_r uf2) rb) (\<lambda>rank_b.
           if rank_a < rank_b then
             bind_res (update_res (uf_p uf2) ra rb) (\<lambda>p'. ret (UnionFind p' (uf_r uf2)))
           else if rank_a > rank_b then
             bind_res (update_res (uf_p uf2) rb ra) (\<lambda>p'. ret (UnionFind p' (uf_r uf2)))
           else
             bind_res (update_res (uf_p uf2) rb ra) (\<lambda>p'.
             bind_res (update_res (uf_r uf2) ra (rank_a + 1)) (\<lambda>r'.
               ret (UnionFind p' r')))))))"

text \<open>
  The fallback of \<^verbatim>\<open>cluster_points_haversine\<close>:
  \<^verbatim>\<open>
      uf = UnionFind(n)
      for i in range(n):
          for j in range(i+1, n):
              d = haversine_m(lats[i], lons[i], lats[j], lons[j])
              if d <= radius_m:
                  uf.union(i, j)
      roots = [uf.find(i) for i in range(n)]
      uniq = {}
      next_id = 0
      labels = []
      for r in roots:
          if r not in uniq:
              uniq[r] = next_id
              next_id += 1
          labels.append(uniq[r])
      return labels
  \<close>
\<close>

definition point_distance :: "'f arith \<Rightarrow> 'f list \<Rightarrow> 'f list \<Rightarrow> nat \<Rightarrow> nat \<Rightarrow> 'f res" where
  "point_distance fa lats lons i j =
     bind_res (nth_res lats i) (\<lambda>lat1.
     bind_res (nth_res lons i) (\<lambda>lon1.
     bind_res (nth_res lats j) (\<lambda>lat2.
     bind_res (nth_res lons j) (\<lambda>lon2.
       Some (haversine_m fa lat1 lon1 lat2 lon2)))))"

definition pair_step ::
  "'f arith \<Rightarrow> 'f list \<Rightarrow> 'f list \<Rightarrow> 'f \<Rightarrow> nat \<Rightarrow> UnionFind \<Rightarrow> nat \<Rightarrow> UnionFind res" where
  "pair_step fa lats lons radius_m i uf j =
     bind_res (point_distance fa lats lons i j) (\<lambda>d.
       if fl_le fa d radius_m then uf_union uf i j else ret uf)"

definition union_pairs :: "'f arith \<Rightarrow> 'f list \<Rightarrow> 'f list \<Rightarrow> 'f \<Rightarrow> nat \<Rightarrow> UnionFind res" where
  "union_pairs fa lats lons radius_m n =
     for_each [0..<n]
       (\<lambda>uf i. for_each [i + 1..<n] (pair_step fa lats lons radius_m i) uf)
       (UnionFind_init n)"

definition find_step :: "UnionFind \<times> nat list \<Rightarrow> nat \<Rightarrow> (UnionFind \<times> nat list) res" where
  "find_step st i =
     (case st of (uf, roots) \<Rightarrow>
        bind_res (uf_find uf i) (\<lambda>(uf', x). ret (uf', roots @ [x])))"

text \<open>The state of the last loop: \<^verbatim>\<open>(uniq, next_id, labels)\<close>.\<close>

type_synonym labelling = "(nat \<rightharpoonup> nat) \<times> nat \<times> nat list"

definition label_step :: "labelling \<Rightarrow> nat \<Rightarrow> labelling res" where
  "label_step st x =
     (case st of (uniq, next_id, labels) \<Rightarrow>
        (let (uniq1, next_id1) =
               (if uniq x = None then (uniq(x \<mapsto> next_id), next_id + 1) else (uniq, next_id))
         in case uniq1 x of
              None \<Rightarrow> raise (KeyError [])
            | Some l \<Rightarrow> ret (uniq1, next_id1, labels @ [l])))"

definition cluster_fallback :: "'f arith \<Rightarrow> 'f list \<Rightarrow> 'f list \<Rightarrow> 'f \<Rightarrow> nat list res" where
  "cluster_fallback fa lats lons radius_m =
     (let n = length lats
      in bind_res (union_pairs fa lats lons radius_m n) (\<lambda>uf.
         bind_res (for_each [0..<n] find_step (uf, [])) (\<lambda>(uf', roots).
         bind_res (for_each roots label_step (Map.empty, 0, [])) (\<lambda>(uniq, next_id, labels).
           ret labels))))"

text \<open>
  The optimized strategy is scikit-learn's \<^verbatim>\<open>DBSCAN\<close>, which is no code of this program:
  \<open>dbscan\<close> stands for \<^verbatim>\<open>DBSCAN(eps, min_samples=1, metric="haversine").fit_predict\<close> on
  the points, \<open>None\<close> when the import or the call raises. Its labels are renumbered by
  their rank among the sorted distinct labels.
\<close>

definition reindex_labels :: "int list \<Rightarrow> nat list" where
  "reindex_labels ls = map (\<lambda>lab. length (filter (\<lambda>x. x < lab) (sorted_list_of_set (set ls)))) ls"

definition cluster_points_haversine ::
  "'f arith \<Rightarrow> ('f list \<Rightarrow> 'f list \<Rightarrow> 'f \<Rightarrow> int list option) \<Rightarrow> 'f list \<Rightarrow> 'f list \<Rightarrow> 'f \<Rightarrow> nat list res" where
  "cluster_points_haversine fa dbscan lats lons radius_m =
     (if length lats = 0 then ret []
      else (case dbscan lats lons radius_m of
              Some ls \<Rightarrow> ret (reindex_labels ls)
            | None \<Rightarrow> cluster_fallback fa lats lons radius_m))"

section \<open>Notions used to state the properties of haversine_m\<close>

text \<open>
  The great-circle distance in metres between two points given in degrees, by the haversine
  formula on the sphere of radius 6371000 m, as a function of real numbers.
\<close>

definition radians :: "real \<Rightarrow> real" where
  "radians x = x * (pi / 180)"

definition haversine_a :: "real \<Rightarrow> real \<Rightarrow> real \<Rightarrow> real \<Rightarrow> real" where
  "haversine_a lat1 lon1 lat2 lon2 =
     (sin ((radians lat2 - radians lat1) / 2))\<^sup>2 +
     cos (radians lat1) * cos (radians lat2) * (sin (radians (lon2 - lon1) / 2))\<^sup>2"

definition great_circle :: "real \<Rightarrow> real \<Rightarrow> real \<Rightarrow> real \<Rightarrow> real" where
  "great_circle lat1 lon1 lat2 lon2 =
     2 * 6371000 * arcsin (sqrt (haversine_a lat1 lon1 lat2 lon2))"

text \<open>\<^verbatim>\<open>round(x, 2)\<close> on a real number: to the nearest hundredth, a tie to the even one.\<close>

definition round2 :: "real \<Rightarrow> real" where
  "round2 x =
     (let y = x * 100; f = \<lfloor>y\<rfloor>
      in (if y - real_of_int f < 1 / 2 then real_of_int f
          else if 1 / 2 < y - real_of_int f then real_of_int (f + 1)
          else if even f then real_of_int f else real_of_int (f + 1)) / 100)"

text \<open>
  An arithmetic that does not round, for the examples and to compare \<^verbatim>\<open>haversine_m\<close> with
  the great-circle distance: its floats are the real numbers, the two infinities and NaN,
  with the results that IEEE arithmetic and \<^verbatim>\<open>math\<close> give for an infinity and for NaN.
  Python floats round, so that they agree with it only up to the rounding.
\<close>

datatype exact_float = Fl real | PlusInf | MinusInf | NaN

definition ex_neg :: "exact_float \<Rightarrow> exact_float" where
  "ex_neg a = (case a of Fl x \<Rightarrow> Fl (- x) | PlusInf \<Rightarrow> MinusInf | MinusInf \<Rightarrow> PlusInf | NaN \<Rightarrow> NaN)"

definition ex_add :: "exact_float \<Rightarrow> exact_float \<Rightarrow> exact_float" where
  "ex_add a b =
     (case a of
        Fl x \<Rightarrow> (case b of Fl y \<Rightarrow> Fl (x + y) | _ \<Rightarrow> b)
      | PlusInf \<Rightarrow> (case b of MinusInf \<Rightarrow> NaN | NaN \<Rightarrow> NaN | _ \<Rightarrow> PlusInf)
      | MinusInf \<Rightarrow> (case b of PlusInf \<Rightarrow> NaN | NaN \<Rightarrow> NaN | _ \<Rightarrow> MinusInf)
      | NaN \<Rightarrow> NaN)"

definition ex_sub :: "exact_float \<Rightarrow> exact_float \<Rightarrow> exact_float" where
  "ex_sub a b = ex_add a (ex_neg b)"

definition ex_sign :: "exact_float \<Rightarrow> real" where
  "ex_sign a = (case a of Fl x \<Rightarrow> sgn x | PlusInf \<Rightarrow> 1 | MinusInf \<Rightarrow> - 1 | NaN \<Rightarrow> 0)"

definition ex_signed_inf :: "real \<Rightarrow> exact_float" where
  "ex_signed_inf s = (if s = 0 then NaN else if 0 < s then PlusInf else MinusInf)"

definition ex_mul :: "exact_float \<Rightarrow> exact_float \<Rightarrow> exact_float" where
  "ex_mul a b =
     (if a = NaN \<or> b = NaN then NaN
      else (case (a, b) of
              (Fl x, Fl y) \<Rightarrow> Fl (x * y)
            | _ \<Rightarrow> ex_signed_inf (ex_sign a * ex_sign b)))"

definition ex_div :: "exact_float \<Rightarrow> exact_float \<Rightarrow> py_error + exact_float" where
  "ex_div a b =
     (if b = Fl 0 then Inl ZeroDivisionError
      else if a = NaN \<or> b = NaN then Inr NaN
      else (case (a, b) of
              (Fl x, Fl y) \<Rightarrow> Inr (Fl (x / y))
            | (Fl x, _) \<Rightarrow> Inr (Fl 0)
            | (_, Fl y) \<Rightarrow> Inr (ex_signed_inf (ex_sign a * sgn y))
            | _ \<Rightarrow> Inr NaN))"

definition ex_radians :: "exact_float \<Rightarrow> exact_float" where
  "ex_radians a = (case a of Fl x \<Rightarrow> Fl (radians x) | _ \<Rightarrow> a)"

definition ex_sin :: "exact_float \<Rightarrow> py_error + exact_float" where
  "ex_sin a = (case a of Fl x \<Rightarrow> Inr (Fl (sin x)) | NaN \<Rightarrow> Inr NaN | _ \<Rightarrow> Inl ValueError)"

definition ex_cos :: "exact_float \<Rightarrow> py_error + exact_float" where
  "ex_cos a = (case a of Fl x \<Rightarrow> Inr (Fl (cos x)) | NaN \<Rightarrow> Inr NaN | _ \<Rightarrow> Inl ValueError)"

definition ex_sqrt :: "exact_float \<Rightarrow> py_error + exact_float" where
  "ex_sqrt a =
     (case a of
        Fl x \<Rightarrow> if x < 0 then Inl ValueError else Inr (Fl (sqrt x))
      | PlusInf \<Rightarrow> Inr PlusInf
      | MinusInf \<Rightarrow> Inl ValueError
      | NaN \<Rightarrow> Inr NaN)"

definition ex_asin :: "exact_float \<Rightarrow> py_error + exact_float" where
  "ex_asin a =
     (case a of
        Fl x \<Rightarrow> if x < - 1 \<or> 1 < x then Inl ValueError else Inr (Fl (arcsin x))
      | NaN \<Rightarrow> Inr NaN
      | _ \<Rightarrow> Inl ValueError)"

definition ex_round2 :: "exact_float \<Rightarrow> exact_float" where
  "ex_round2 a = (case a of Fl x \<Rightarrow> Fl (round2 x) | _ \<Rightarrow> a)"

definition ex_le :: "exact_float \<Rightarrow> exact_float \<Rightarrow> bool" where
  "ex_le a b =
     (case a of
        Fl x \<Rightarrow> (case b of Fl y \<Rightarrow> x \<le> y | PlusInf \<Rightarrow> True | _ \<Rightarrow> False)
      | PlusInf \<Rightarrow> b = PlusInf
      | MinusInf \<Rightarrow> b \<noteq> NaN
      | NaN \<Rightarrow> False)"

definition ex_lt :: "exact_float \<Rightarrow> exact_float \<Rightarrow> bool" where
  "ex_lt a b =
     (case a of
        Fl x \<Rightarrow> (case b of Fl y \<Rightarrow> x < y | PlusInf \<Rightarrow> True | _ \<Rightarrow> False)
      | PlusInf \<Rightarrow> False
      | MinusInf \<Rightarrow> b \<noteq> NaN \<and> b \<noteq> MinusInf
      | NaN \<Rightarrow> False)"

definition exact_arith :: "exact_float arith" where
  "exact_arith =
     Arith (\<lambda>n. Fl (of_int n)) ex_add ex_sub ex_mul ex_div (\<lambda>a. Inr (ex_mul a a)) ex_radians
       ex_sin ex_cos ex_sqrt ex_asin ex_round2 ex_le ex_lt"

section \<open>Notions used to state the properties of UnionFind\<close>

text \<open>
  \<open>reaches p i d x\<close>: following the parent list \<open>p\<close> from the index \<open>i\<close> for \<open>d\<close> steps
  ends in \<open>x\<close>, which is its own parent. A parent list is a forest when every index
  reaches such a root; \<open>rep_of p i\<close> is the root of \<open>i\<close>.
\<close>

inductive reaches :: "nat list \<Rightarrow> nat \<Rightarrow> nat \<Rightarrow> nat \<Rightarrow> bool" where
  reaches_root: "i < length p \<Longrightarrow> p ! i = i \<Longrightarrow> reaches p i 0 i"
| reaches_step: "i < length p \<Longrightarrow> p ! i \<noteq> i \<Longrightarrow> reaches p (p ! i) d x \<Longrightarrow> reaches p i (Suc d) x"

definition forest :: "nat list \<Rightarrow> bool" where
  "forest p = (\<forall>i<length p. \<exists>d x. reaches p i d x)"

definition rep_of :: "nat list \<Rightarrow> nat \<Rightarrow> nat" where
  "rep_of p i = (THE x. \<exists>d. reaches p i d x)"



section \<open>Notions used to state the properties of cluster_points_haversine\<close>





section \<open>main\<close>

text \<open>
  The input table is the data frame that \<^verbatim>\<open>read_csv\<close> returns: the column names and the
  rows. What pandas and the platform do is taken as given: \<open>pf_arith\<close> is the arithmetic
  of the floats, \<open>pf_to_numeric\<close> is \<^verbatim>\<open>pd.to_numeric(errors="coerce")\<close> on one cell
  (\<open>None\<close> for NaN), \<open>pf_float_str\<close> is \<^verbatim>\<open>str\<close> of a float, \<open>pf_mean\<close> is the \<^verbatim>\<open>mean\<close> of
  a column of floats and \<open>pf_dbscan\<close> the optimized clustering.
\<close>

datatype 'f platform = Platform
  (pf_arith: "'f arith")
  (pf_to_numeric: "string \<Rightarrow> 'f option")
  (pf_float_str: "'f \<Rightarrow> string")
  (pf_mean: "'f list \<Rightarrow> 'f")
  (pf_dbscan: "'f list \<Rightarrow> 'f list \<Rightarrow> 'f \<Rightarrow> int list option")

datatype table = Table (columns: "string list") (table_rows: "row list")

text \<open>
  A row after \<^verbatim>\<open>to_numeric\<close> and \<^verbatim>\<open>dropna\<close>: its identifier, its coordinates, and the row
  as \<^verbatim>\<open>build_schedule_signature\<close> reads it.
\<close>

datatype 'f numeric_row = NumericRow
  (nr_post_id: string) (nr_longitude: 'f) (nr_latitude: 'f) (nr_row: row)

datatype 'f meter = Meter
  (m_post_id: string) (m_longitude: 'f) (m_latitude: 'f) (m_street_name: string)
  (m_street_num: string) (m_blockface_id: string) (m_cap_color: string)
  (m_schedule_hash: string) (m_schedule_json: string)

text \<open>The rows of the two output tables; \<open>cr_x\<close> and \<open>mr_x\<close> are their columns \<open>x\<close>.\<close>

datatype 'f cluster_record = ClusterRecord
  (cr_cluster_id: string) (cr_schedule_hash: string) (cr_count_meters: nat) (cr_post_ids: string)
  (cr_centroid_latitude: 'f) (cr_centroid_longitude: 'f) (cr_approx_max_radius_m: 'f)
  (cr_street_name_mode: string) (cr_cap_color_mode: string) (cr_blockface_ids: string)
  (cr_schedule_json: string)

datatype 'f member_record = MemberRecord
  (mr_cluster_id: string) (mr_post_id: string) (mr_latitude: 'f) (mr_longitude: 'f)
  (mr_street_name: string) (mr_street_num: string) (mr_blockface_id: string)
  (mr_cap_color: string) (mr_schedule_hash: string)

definition required_cols :: "string list" where
  "required_cols = [''post_id'', ''longitude'', ''latitude'']"

text \<open>The text of a cell of a column that the frame has.\<close>

definition cell :: "row \<Rightarrow> string \<Rightarrow> string" where
  "cell r c = (case r c of None \<Rightarrow> [] | Some v \<Rightarrow> v)"

text \<open>
  \<^verbatim>\<open>
  df["longitude"] = pd.to_numeric(df["longitude"], errors="coerce")
  df["latitude"]  = pd.to_numeric(df["latitude"], errors="coerce")
  df = df.dropna(subset=["longitude", "latitude"]).copy()
  \<close>
\<close>

definition numeric_rows :: "'f platform \<Rightarrow> row list \<Rightarrow> 'f numeric_row list" where
  "numeric_rows pf rows =
     concat (map (\<lambda>r.
       case (pf_to_numeric pf (cell r ''longitude''), pf_to_numeric pf (cell r ''latitude'')) of
         (Some lon, Some lat) \<Rightarrow>
           [NumericRow (cell r ''post_id'') lon lat
              (r(''longitude'' \<mapsto> pf_float_str pf lon, ''latitude'' \<mapsto> pf_float_str pf lat))]
       | _ \<Rightarrow> []) rows)"

text \<open>
  \<^verbatim>\<open>df.groupby(key, sort=False)\<close>: one group for each key, in the order in which the keys
  first occur, each with its rows in their order. With \<^verbatim>\<open>sort=True\<close>, the default, the
  groups are in the order of the keys.
\<close>

definition groupby :: "('a \<Rightarrow> 'k) \<Rightarrow> 'a list \<Rightarrow> ('k \<times> 'a list) list" where
  "groupby key xs = map (\<lambda>k. (k, filter (\<lambda>x. key x = k) xs)) (firsts (map key xs))"

definition groupby_sorted :: "('a \<Rightarrow> nat) \<Rightarrow> 'a list \<Rightarrow> (nat \<times> 'a list) list" where
  "groupby_sorted key xs =
     map (\<lambda>k. (k, filter (\<lambda>x. key x = k) xs)) (sorted_list_of_set (set (map key xs)))"

text \<open>
  \<^verbatim>\<open>mode(g.get(c, [])) if c in g else ""\<close> for a group of rows of the input table.
\<close>

definition column_mode :: "string list \<Rightarrow> string \<Rightarrow> 'f numeric_row list \<Rightarrow> string res" where
  "column_mode cols c g =
     (if c \<in> set cols then Some (mode (map (\<lambda>r. cell (nr_row r) c) g)) else ret [])"

text \<open>The body of the loop over the groups of one \<^verbatim>\<open>post_id\<close>.\<close>

definition make_meter ::
  "'f platform \<Rightarrow> string list \<Rightarrow> string list \<Rightarrow> string \<times> 'f numeric_row list \<Rightarrow> 'f meter res" where
  "make_meter pf cols signature_fields pg =
     (case pg of (pid, g) \<Rightarrow>
        bind_res (Some (build_schedule_signature (map nr_row g) signature_fields)) (\<lambda>(schedule_hash, schedule_entries).
        bind_res (column_mode cols ''street_name'' g) (\<lambda>street_name.
        bind_res (column_mode cols ''street_num'' g) (\<lambda>street_num.
        bind_res (column_mode cols ''blockface_id'' g) (\<lambda>blockface_id.
        bind_res (column_mode cols ''cap_color'' g) (\<lambda>cap_color.
          ret (Meter pid (pf_mean pf (map nr_longitude g)) (pf_mean pf (map nr_latitude g))
                 street_name street_num blockface_id cap_color schedule_hash
                 (json_dumps_list False False schedule_entries))))))))"

definition meter_step ::
  "'f platform \<Rightarrow> string list \<Rightarrow> string list \<Rightarrow> 'f meter list \<Rightarrow> string \<times> 'f numeric_row list \<Rightarrow>
   'f meter list res" where
  "meter_step pf cols signature_fields meters pg =
     bind_res (make_meter pf cols signature_fields pg) (\<lambda>m. ret (meters @ [m]))"

text \<open>
  The state of the loops over the clusters: \<^verbatim>\<open>global_cluster_id\<close>, \<^verbatim>\<open>cluster_records\<close>
  and \<^verbatim>\<open>member_records\<close>.
\<close>

type_synonym 'f outputs = "nat \<times> 'f cluster_record list \<times> 'f member_record list"

text \<open>\<^verbatim>\<open>max(a, b)\<close> of two floats: \<open>b\<close> when \<^verbatim>\<open>b > a\<close>, else \<open>a\<close>.\<close>

definition py_max :: "'f arith \<Rightarrow> 'f \<Rightarrow> 'f \<Rightarrow> 'f" where
  "py_max fa a b = (if fl_lt fa a b then b else a)"

definition max_radius_step :: "'f arith \<Rightarrow> 'f \<Rightarrow> 'f \<Rightarrow> 'f \<Rightarrow> 'f meter \<Rightarrow> 'f res" where
  "max_radius_step fa clat clon max_r m =
     bind_res (Some (haversine_m fa clat clon (m_latitude m) (m_longitude m))) (\<lambda>d.
       ret (py_max fa max_r d))"

definition member_of :: "string \<Rightarrow> string \<Rightarrow> 'f meter \<Rightarrow> 'f member_record" where
  "member_of cid shash m =
     MemberRecord cid (m_post_id m) (m_latitude m) (m_longitude m) (m_street_name m)
       (m_street_num m) (m_blockface_id m) (m_cap_color m) shash"

definition cluster_step ::
  "'f platform \<Rightarrow> string \<Rightarrow> 'f outputs \<Rightarrow> nat \<times> 'f meter list \<Rightarrow> 'f outputs res" where
  "cluster_step pf shash st lsub =
     (case (st, lsub) of ((global_cluster_id, cluster_records, member_records), (lc, sub)) \<Rightarrow>
        (let global_cluster_id = global_cluster_id + 1;
             cid = CHR ''C'' # fmt_0d 5 (int global_cluster_id);
             clat = pf_mean pf (map m_latitude sub);
             clon = pf_mean pf (map m_longitude sub)
         in bind_res (for_each sub (max_radius_step (pf_arith pf) clat clon) (fl_of_int (pf_arith pf) 0))
              (\<lambda>max_r.
            bind_res (Some (mode (map m_street_name sub))) (\<lambda>street.
            bind_res (Some (mode (map m_cap_color sub))) (\<lambda>cap.
            bind_res (nth_res (map m_schedule_json sub) 0) (\<lambda>sjson.
              ret (global_cluster_id,
                   cluster_records @
                     [ClusterRecord cid shash (length sub)
                        (py_join ''|'' (sort (map m_post_id sub)))
                        clat clon (fl_round2 (pf_arith pf) max_r) street cap
                        (py_join ''|''
                           (sorted_list_of_set {x \<in> set (map m_blockface_id sub). py_strip x \<noteq> []}))
                        sjson],
                   member_records @ map (member_of cid shash) sub)))))))"

definition group_step ::
  "'f platform \<Rightarrow> 'f \<Rightarrow> 'f outputs \<Rightarrow> string \<times> 'f meter list \<Rightarrow> 'f outputs res" where
  "group_step pf radius_m st hg =
     (case hg of (shash, g) \<Rightarrow>
        bind_res (cluster_points_haversine (pf_arith pf) (pf_dbscan pf)
                    (map m_latitude g) (map m_longitude g) radius_m)
          (\<lambda>labels.
             if length labels \<noteq> length g then raise ValueError
             else for_each (map (\<lambda>(lc, ms). (lc, map fst ms)) (groupby_sorted snd (zip g labels)))
                    (cluster_step pf shash) st))"

text \<open>
  \<^verbatim>\<open>main\<close>, from the data frame to the two tables it writes. \<^verbatim>\<open>sys.exit(message)\<close> is
  the error \<open>SystemExit\<close> with the message and the list \<^verbatim>\<open>missing\<close> in it (the source
  iterates a set: the order of the names is not fixed). A frame made from no meters has no
  column, so that \<^verbatim>\<open>mdf.groupby("schedule_hash")\<close> raises \<^verbatim>\<open>KeyError\<close>.
\<close>

definition main ::
  "'f platform \<Rightarrow> 'f \<Rightarrow> string list \<Rightarrow> table \<Rightarrow> ('f cluster_record list \<times> 'f member_record list) res" where
  "main pf radius_m signature_fields df =
     (let missing = filter (\<lambda>c. c \<notin> set (columns df)) required_cols
      in if missing \<noteq> [] then raise (SystemExit ''Missing required columns in input CSV: '' missing)
         else
           bind_res (for_each (groupby nr_post_id (numeric_rows pf (table_rows df)))
                       (meter_step pf (columns df) signature_fields) []) (\<lambda>meters.
           if meters = [] then raise (KeyError ''schedule_hash'')
           else
             bind_res (for_each (groupby m_schedule_hash meters) (group_step pf radius_m) (0, [], []))
               (\<lambda>(global_cluster_id, cluster_records, member_records).
                  ret (cluster_records, member_records))))"

section \<open>Notions used to state the properties of main\<close>

text \<open>The identifier of the \<open>k\<close>-th cluster, and the value of \<^verbatim>\<open>mode\<close>.\<close>

definition cid_of :: "nat \<Rightarrow> string" where
  "cid_of k = CHR ''C'' # fmt_0d 5 (int k)"

definition mode_text :: "string list \<Rightarrow> string" where
  "mode_text vs = (case mode vs of Inl e \<Rightarrow> [] | Inr s \<Rightarrow> s)"

text \<open>
  The result of the loop over \<^verbatim>\<open>sub.iterrows()\<close> that looks for the largest distance from
  the centre, when it raises nothing.
\<close>

definition max_radius :: "'f arith \<Rightarrow> 'f \<Rightarrow> 'f \<Rightarrow> 'f meter list \<Rightarrow> 'f" where
  "max_radius fa clat clon sub =
     (case for_each sub (max_radius_step fa clat clon) (fl_of_int fa 0) of
        Some (Inr max_r) \<Rightarrow> max_r
      | _ \<Rightarrow> fl_of_int fa 0)"

text \<open>
  The row of the cluster table for the \<open>k\<close>-th cluster, made of the meters \<open>sub\<close> of
  the signature group \<open>shash\<close>; and the rows that the clusters \<open>subs\<close> add to the two
  tables when \<open>gid\<close> clusters have been numbered before them.
\<close>

definition cluster_of :: "'f platform \<Rightarrow> nat \<Rightarrow> string \<Rightarrow> 'f meter list \<Rightarrow> 'f cluster_record" where
  "cluster_of pf k shash sub =
     ClusterRecord (cid_of k) shash (length sub)
       (py_join ''|'' (sort (map m_post_id sub)))
       (pf_mean pf (map m_latitude sub)) (pf_mean pf (map m_longitude sub))
       (fl_round2 (pf_arith pf)
          (max_radius (pf_arith pf) (pf_mean pf (map m_latitude sub)) (pf_mean pf (map m_longitude sub)) sub))
       (mode_text (map m_street_name sub)) (mode_text (map m_cap_color sub))
       (py_join ''|'' (sorted_list_of_set {x \<in> set (map m_blockface_id sub). py_strip x \<noteq> []}))
       (m_schedule_json (hd sub))"

fun emit_clusters ::
  "'f platform \<Rightarrow> nat \<Rightarrow> (string \<times> 'f meter list) list \<Rightarrow> 'f cluster_record list" where
  "emit_clusters pf gid [] = []"
| "emit_clusters pf gid ((shash, sub) # subs) =
     cluster_of pf (gid + 1) shash sub # emit_clusters pf (gid + 1) subs"

fun emit_members :: "nat \<Rightarrow> (string \<times> 'f meter list) list \<Rightarrow> 'f member_record list" where
  "emit_members gid [] = []"
| "emit_members gid ((shash, sub) # subs) =
     map (member_of (cid_of (gid + 1)) shash) sub @ emit_members (gid + 1) subs"

text \<open>The number that a text of decimal digits denotes.\<close>

definition read_nat :: "string \<Rightarrow> nat" where
  "read_nat s = foldl (\<lambda>a c. 10 * a + digit_val c) 0 s"

text \<open>
  What the first loop of \<^verbatim>\<open>main\<close> stores for the rows \<open>g\<close> of one \<^verbatim>\<open>post_id\<close>: the
  identifier, the means of the coordinates and the hash of the signature of the rows.
\<close>

definition meter_for ::
  "'f platform \<Rightarrow> string list \<Rightarrow> string \<times> 'f numeric_row list \<Rightarrow> 'f meter \<Rightarrow> bool" where
  "meter_for pf signature_fields pg m =
     (m_post_id m = fst pg \<and>
      m_longitude m = pf_mean pf (map nr_longitude (snd pg)) \<and>
      m_latitude m = pf_mean pf (map nr_latitude (snd pg)) \<and>
      (case build_schedule_signature (map nr_row (snd pg)) signature_fields of
         Inl e \<Rightarrow> False
       | Inr (h, es) \<Rightarrow> m_schedule_hash m = h))"

text \<open>
  The clusters \<open>subs\<close>, each with the hash of its signature group, behind the two tables:
  no cluster is empty, the meters of a cluster have the hash of its group, and the
  clusters together hold each meter once.
\<close>

definition clustering :: "'f meter list \<Rightarrow> (string \<times> 'f meter list) list \<Rightarrow> bool" where
  "clustering meters subs =
     (list_all (\<lambda>hs. snd hs \<noteq> [] \<and> list_all (\<lambda>m. m_schedule_hash m = fst hs) (snd hs)) subs \<and>
      mset (concat (map snd subs)) = mset meters)"

section \<open>An example of a platform and of a table\<close>

text \<open>
  An example of a platform: the arithmetic that does not round, a \<^verbatim>\<open>to_numeric\<close> that
  reads the decimal integers only (any other text is NaN), \<^verbatim>\<open>str\<close> as it is for the
  floats that are such integers, the mean as the sum divided by the number, and no
  scikit-learn. And an example of a table: the meter P1 has two equal rows, P2 is at the
  place of P1, P3 is far from both, and the row of P4 has no numeric longitude.
\<close>

definition ex_mean :: "exact_float list \<Rightarrow> exact_float" where
  "ex_mean xs =
     (case ex_div (foldl ex_add (Fl 0) xs) (Fl (real (length xs))) of
        Inl e \<Rightarrow> NaN
      | Inr m \<Rightarrow> m)"

definition int_to_numeric :: "string \<Rightarrow> exact_float option" where
  "int_to_numeric s = (case py_int s of Inl e \<Rightarrow> None | Inr n \<Rightarrow> Some (Fl (of_int n)))"

definition ex_float_str :: "exact_float \<Rightarrow> string" where
  "ex_float_str a =
     (case a of
        Fl x \<Rightarrow> fmt_0d 1 \<lfloor>x\<rfloor> @ ''.0''
      | PlusInf \<Rightarrow> ''inf''
      | MinusInf \<Rightarrow> ''-inf''
      | NaN \<Rightarrow> ''nan'')"

definition example_platform :: "exact_float platform" where
  "example_platform =
     Platform exact_arith int_to_numeric ex_float_str ex_mean (\<lambda>lats lons radius_m. None)"

definition example_row :: "string \<Rightarrow> string \<Rightarrow> string \<Rightarrow> row" where
  "example_row post_id longitude latitude =
     map_of [(''post_id'', post_id), (''longitude'', longitude), (''latitude'', latitude),
             (''time_limit_min'', ''60'')]"

definition example_table :: table where
  "example_table =
     Table [''post_id'', ''longitude'', ''latitude'', ''time_limit_min'']
       [example_row ''P1'' ''0'' ''0'', example_row ''P2'' ''0'' ''0'',
        example_row ''P3'' ''180'' ''0'', example_row ''P1'' ''0'' ''0'',
        example_row ''P4'' ''x'' ''0'']"

text \<open>The rows of the example that \<^verbatim>\<open>dropna\<close> keeps, and the signature of its meters.\<close>

definition example_numeric_row :: "string \<Rightarrow> real \<Rightarrow> string \<Rightarrow> exact_float numeric_row" where
  "example_numeric_row post_id longitude longitude_text =
     NumericRow post_id (Fl longitude) (Fl 0)
       (map_of [(''post_id'', post_id), (''longitude'', longitude_text), (''latitude'', ''0.0''),
                (''time_limit_min'', ''60'')])"

definition example_entries :: "pydict list" where
  "example_entries = [[(''time_limit_min'', ''60'')]]"

definition example_hash :: string where
  "example_hash = sha1_hexdigest (signature_raw example_entries)"

definition example_meter :: "string \<Rightarrow> real \<Rightarrow> exact_float meter" where
  "example_meter post_id longitude =
     Meter post_id (Fl longitude) (Fl 0) [] [] [] [] example_hash
       (json_dumps_list False False example_entries)"

text \<open>The clusters of the example: P1 with P2, and P3.\<close>

definition example_clusters :: "(string \<times> exact_float meter list) list" where
  "example_clusters =
     [(example_hash, [example_meter ''P1'' 0, example_meter ''P2'' 0]),
      (example_hash, [example_meter ''P3'' 180])]"

text \<open>The rows of the two tables of the example, as far as the examples show them.\<close>

definition example_member :: "string \<Rightarrow> string \<Rightarrow> real \<Rightarrow> exact_float member_record" where
  "example_member cluster_id post_id longitude =
     MemberRecord cluster_id post_id (Fl 0) (Fl longitude) [] [] [] [] example_hash"

definition example_members :: "exact_float member_record list" where
  "example_members =
     [example_member ''C00001'' ''P1'' 0, example_member ''C00001'' ''P2'' 0,
      example_member ''C00002'' ''P3'' 180]"

definition example_cluster_records :: "exact_float cluster_record list" where
  "example_cluster_records = emit_clusters example_platform 0 example_clusters"

section \<open>Properties of mode\<close>

lemma counter_add_map: 
  "distinct ks \<Longrightarrow> counter_add (map (\<lambda>k. (k, f k)) ks) v =
    (if v \<in> set ks then map (\<lambda>k. (k, (f(v := f v + 1)) k)) ks else map (\<lambda>k. (k, f k)) ks @ [(v, 1)])"
  by (induction ks) auto

lemma firsts_snoc: "firsts (xs @ [x]) = (if x \<in> set xs then firsts xs else firsts xs @ [x])"
  by (simp add: firsts_def)

lemma distinct_firsts: "distinct (firsts xs)" and set_firsts: "set (firsts xs) = set xs"
  by (simp_all add: firsts_def)

lemma Counter_eq: "Counter xs = map (\<lambda>k. (k, count_list xs k)) (firsts xs)"
proof (induction xs rule: rev_induct)
  case Nil
  then show ?case by (simp add: Counter_def firsts_def)
next
  case (snoc x xs)
  have "Counter (xs @ [x]) = counter_add (Counter xs) x" by (simp add: Counter_def)
  also have "\<dots> = counter_add (map (\<lambda>k. (k, count_list xs k)) (firsts xs)) x" by (simp add: snoc)
  also have "\<dots> = map (\<lambda>k. (k, count_list (xs @ [x]) k)) (firsts (xs @ [x]))"
    by (auto simp add: counter_add_map distinct_firsts set_firsts firsts_snoc count_list_0_iff)
  finally show ?case .
qed

lemma remdups_append_filter: "remdups (xs @ ys) = remdups (filter (\<lambda>x. x \<notin> set ys) xs) @ remdups ys"
  by (induction xs) auto

lemma firsts_append: "firsts (p @ s) = firsts p @ filter (\<lambda>x. x \<notin> set p) (firsts s)"
  by (simp add: firsts_def remdups_append_filter remdups_filter rev_filter)

lemma firsts_Cons: "firsts (x # s) = x # filter (\<lambda>y. y \<noteq> x) (firsts s)"
  using firsts_append[of "[x]" s] by (simp add: firsts_def)

lemma foldl_max_step:
  "\<exists>pre post. x # xs = pre @ foldl max_step x xs # post \<and>
     (\<forall>y\<in>set pre. snd y < snd (foldl max_step x xs)) \<and>
     (\<forall>y\<in>set post. snd y \<le> snd (foldl max_step x xs))"
proof (induction xs rule: rev_induct)
  case Nil
  then show ?case by fastforce
next
  case (snoc y xs)
  then obtain pre post where s: "x # xs = pre @ foldl max_step x xs # post" 
     "\<forall>y\<in>set pre. snd y < snd (foldl max_step x xs)" 
     "\<forall>y\<in>set post. snd y \<le> snd (foldl max_step x xs)" by blast
  show ?case
  proof (cases "snd (foldl max_step x xs) < snd y")
    case True
    then have r: "foldl max_step x (xs @ [y]) = y" by (simp add: max_step_def)
    have "\<forall>z\<in>set (pre @ foldl max_step x xs # post). snd z < snd y" 
      using s(2,3) True by auto
    then have "\<forall>z\<in>set (x # xs). snd z < snd y" using s(1) by metis
    then show ?thesis unfolding r
      by (intro exI[of _ "x # xs"] exI[of _ "[]"]) simp
  next
    case False
    then have r: "foldl max_step x (xs @ [y]) = foldl max_step x xs" by (simp add: max_step_def)
    show ?thesis unfolding r using s False
      by (intro exI[of _ pre] exI[of _ "post @ [y]"]) auto
  qed
qed

lemma count_list_filter_same: "P v \<Longrightarrow> count_list (filter P vs) v = count_list vs v"
  by (induction vs) auto

lemma first_index_append_notin: "x \<notin> set p \<Longrightarrow> first_index (p @ s) x = length p + first_index s x"
  by (induction p) (auto simp add: first_index_def)

lemma first_index_less: "v \<in> set p \<Longrightarrow> first_index (p @ s) v < length p"
  by (induction p) (auto simp: first_index_def)

lemma first_index_filter_mono:
  "P a \<Longrightarrow> P b \<Longrightarrow> a \<in> set xs \<Longrightarrow> first_index (filter P xs) a \<le> first_index (filter P xs) b 
   \<Longrightarrow> first_index xs a \<le> first_index xs b"
  by (induction xs) (auto simp: first_index_def split: if_splits)

lemma split_unique:
  "m \<notin> set A \<Longrightarrow> m \<notin> set A' \<Longrightarrow> A @ m # B = A' @ m # B' \<Longrightarrow> A = A' \<and> B = B'"
proof (induction A arbitrary: A')
  case Nil
  then show ?case by (cases A') auto
next
  case (Cons a A)
  then show ?case by (cases A') auto
qed

lemma firsts_split_first_index:
  assumes "firsts xs = A @ m # B" "v \<in> set B"
  shows "first_index xs m < first_index xs v"
proof -
  have m: "m \<in> set xs" using assms(1) set_firsts[of xs] by auto
  then obtain p q where pq: "xs = p @ m # q" "m \<notin> set p" by (meson split_list_first)
  have "firsts xs = firsts p @ m # filter (\<lambda>x. x \<notin> set p) (filter (\<lambda>y. y \<noteq> m) (firsts q))"
    using pq by (simp add: firsts_append firsts_Cons)
  moreover have "m \<notin> set (firsts p)" using pq(2) by (simp add: set_firsts)
  moreover have "m \<notin> set A" using assms(1) distinct_firsts[of xs] by auto
  ultimately have "A = firsts p \<and> B = filter (\<lambda>x. x \<notin> set p) (filter (\<lambda>y. y \<noteq> m) (firsts q))"
    using assms(1) split_unique[of m A "firsts p" B] by simp
  then have "v \<notin> set p" using assms(2) by auto
  then have "first_index xs v \<ge> length p" by (simp add: pq first_index_append_notin)
  moreover have "v \<noteq> m" using assms distinct_firsts[of xs] by auto
  moreover have "first_index xs m = length p" using pq by (simp add: first_index_append_notin) (simp add: first_index_def)
  ultimately show ?thesis using \<open>v \<notin> set p\<close> pq
    by (simp add: first_index_append_notin) (simp add: first_index_def)
qed

text \<open>
  Claim C10. \<^verbatim>\<open>mode\<close> never fails. If no value of the sequence is non-empty and not
  whitespace-only it returns the empty string. Otherwise it returns a value \<open>m\<close> of the
  sequence that is non-blank, occurs at least as often as every other non-blank value, and
  among the non-blank values that occur as often as \<open>m\<close> has the earliest first occurrence.
\<close>

theorem mode_most_frequent:
  "(\<not> (\<exists>v\<in>set vs. nonblank v) \<longrightarrow> mode vs = Inr '''') \<and>
   ((\<exists>v\<in>set vs. nonblank v) \<longrightarrow>
      (\<exists>m. mode vs = Inr m \<and> m \<in> set vs \<and> nonblank m \<and>
           (\<forall>v\<in>set vs. nonblank v \<longrightarrow> count_list vs v \<le> count_list vs m) \<and>
           (\<forall>v\<in>set vs. nonblank v \<and> count_list vs v = count_list vs m \<longrightarrow>
                first_index vs m \<le> first_index vs v)))"
proof (intro conjI impI)
  assume "\<not> (\<exists>v\<in>set vs. nonblank v)"
  then have "filter nonblank vs = []" by (simp add: filter_empty_conv)
  then show "mode vs = Inr ''''" by (simp add: mode_def)
next
  assume ex: "\<exists>v\<in>set vs. nonblank v"
  define vals where "vals = filter nonblank vs"
  have ne: "vals \<noteq> []" using ex by (auto simp: vals_def filter_empty_conv)
  then have fne: "firsts vals \<noteq> []" using set_firsts[of vals] by auto
  define items where "items = map (\<lambda>k. (k, count_list vals k)) (firsts vals)"
  obtain x xs where xxs: "items = x # xs" using fne by (cases items) (auto simp: items_def)
  define r where "r = foldl max_step x xs"
  obtain pre post where sp: "items = pre @ r # post"
      "\<forall>y\<in>set pre. snd y < snd r" "\<forall>y\<in>set post. snd y \<le> snd r"
    using foldl_max_step[of x xs] unfolding r_def xxs by blast
  have modeq: "mode vs = Inr (fst r)"
    using ne by (simp add: mode_def vals_def[symmetric] Counter_eq items_def[symmetric] xxs r_def)
  have rin: "r \<in> set items" using sp(1) by simp
  then have r2: "fst r \<in> set vals" "snd r = count_list vals (fst r)"
    by (auto simp: items_def set_firsts)
  have cnt: "count_list vals v = count_list vs v" if "nonblank v" for v
    using that by (simp add: vals_def count_list_filter_same)
  have mnb: "nonblank (fst r)" and mvs: "fst r \<in> set vs" using r2(1) by (auto simp: vals_def)
  have fsplit: "firsts vals = map fst pre @ fst r # map fst post"
  proof -
    have "map fst items = firsts vals" by (simp add: items_def comp_def)
    then show ?thesis using sp(1) by simp
  qed
  have le: "count_list vs v \<le> count_list vs (fst r)" if "v \<in> set vs" "nonblank v" for v
  proof -
    have "v \<in> set (firsts vals)" using that by (simp add: set_firsts vals_def)
    then have "(v, count_list vals v) \<in> set items" by (auto simp: items_def)
    then have "count_list vals v \<le> snd r" using sp by fastforce
    then show ?thesis using that r2 mnb by (simp add: cnt)
  qed
  have tie: "first_index vs (fst r) \<le> first_index vs v"
    if "v \<in> set vs" "nonblank v" "count_list vs v = count_list vs (fst r)" for v
  proof (cases "v = fst r")
    case True then show ?thesis by simp
  next
    case False
    have vin: "v \<in> set (firsts vals)" using that by (simp add: set_firsts vals_def)
    have "v \<notin> set (map fst pre)"
    proof
      assume "v \<in> set (map fst pre)"
      then obtain y where y: "y \<in> set pre" "fst y = v" by auto
      then have "y \<in> set items" using sp(1) by simp
      then have "snd y = count_list vals v" using y by (auto simp: items_def)
      then show False using sp(2) y that r2 mnb by (auto simp: cnt)
    qed
    then have "v \<in> set (map fst post)" using vin False unfolding fsplit by auto
    then have "first_index vals (fst r) < first_index vals v"
      using firsts_split_first_index[OF fsplit] by blast
    then show ?thesis
      using first_index_filter_mono[of nonblank "fst r" v vs] mnb that mvs
      by (simp add: vals_def)
  qed
  show "\<exists>m. mode vs = Inr m \<and> m \<in> set vs \<and> nonblank m \<and>
           (\<forall>v\<in>set vs. nonblank v \<longrightarrow> count_list vs v \<le> count_list vs m) \<and>
           (\<forall>v\<in>set vs. nonblank v \<and> count_list vs v = count_list vs m \<longrightarrow>
                first_index vs m \<le> first_index vs v)"
    using modeq mvs mnb le tie by blast
qed


lemma mode_example: "mode [''b'', ''a'', '' '', ''a'', ''b''] = Inr ''b''"
  by code_simp

lemma nonblank_example: "nonblank ''b''"
  by code_simp

theorem mode_most_frequent_witness:
  "(\<exists>v\<in>set [''b'', ''a'', '' '', ''a'', ''b'']. nonblank v) \<and>
   (\<exists>m. mode [''b'', ''a'', '' '', ''a'', ''b''] = Inr m \<and> m = ''b'' \<and> nonblank m \<and>
        count_list [''b'', ''a'', '' '', ''a'', ''b''] m = 2 \<and>
        first_index [''b'', ''a'', '' '', ''a'', ''b''] m = 0)"
  using mode_most_frequent[of "[''b'', ''a'', '' '', ''a'', ''b'']"] mode_example nonblank_example
  by (simp add: first_index_def)

section \<open>Properties of canonical_days\<close>

lemma day_loop1_foldl:
  "distinct ds \<Longrightarrow>
   foldl (day_loop1 parts) (abbr, seen) ds =
     (abbr @ filter (\<lambda>d. d \<in> set parts \<and> d \<notin> seen) ds, seen \<union> {d \<in> set ds. d \<in> set parts})"
proof (induction ds arbitrary: abbr seen)
  case Nil
  then show ?case by simp
next
  case (Cons d ds)
  have f: "filter (\<lambda>x. x \<in> set parts \<and> x \<noteq> d \<and> x \<notin> seen) ds = filter (\<lambda>x. x \<in> set parts \<and> x \<notin> seen) ds"
    using Cons.prems by (auto intro: filter_cong)
  have ih: "foldl (day_loop1 parts) st ds =
     (fst st @ filter (\<lambda>d. d \<in> set parts \<and> d \<notin> snd st) ds, snd st \<union> {d \<in> set ds. d \<in> set parts})" for st
    using Cons.IH[of "fst st" "snd st"] Cons.prems by simp
  show ?case
  proof (cases "d \<in> set parts \<and> d \<notin> seen")
    case True
    then have "day_loop1 parts (abbr, seen) d = (abbr @ [d], insert d seen)" by (simp add: day_loop1_def)
    then show ?thesis using True by (auto simp: ih f)
  next
    case False
    then have "day_loop1 parts (abbr, seen) d = (abbr, seen)" by (simp add: day_loop1_def)
    then show ?thesis using False by (auto simp: ih)
  qed
qed

lemma day_loop2_foldl:
  "foldl (day_loop2 seen) abbr parts = abbr @ filter (\<lambda>p. p \<notin> seen \<and> length p \<le> 3) parts"
  by (induction parts arbitrary: abbr) (auto simp: day_loop2_def)

lemma distinct_DAY_ORDER: "distinct DAY_ORDER"
  by (simp add: DAY_ORDER_def)

lemma days_from_tokens_eq:
  "days_from_tokens s =
     py_join '','' (filter (\<lambda>d. d \<in> set (day_parts s)) DAY_ORDER @
                   filter (\<lambda>p. p \<notin> set DAY_ORDER \<and> length p \<le> 3) (day_parts s))"
proof -
  have "filter (\<lambda>p. p \<notin> {} \<union> {d \<in> set DAY_ORDER. d \<in> set (day_parts s)} \<and> length p \<le> 3) (day_parts s)
      = filter (\<lambda>p. p \<notin> set DAY_ORDER \<and> length p \<le> 3) (day_parts s)"
    by (auto intro: filter_cong)
  then show ?thesis
    by (simp add: days_from_tokens_def Let_def day_loop1_foldl[OF distinct_DAY_ORDER] day_loop2_foldl)
qed

text \<open>
  The claim C4 as stated fails for abbreviations of another case or length, which are not
  recognised: \<^verbatim>\<open>d in parts\<close> compares
  the tokens with the codes of \<^verbatim>\<open>DAY_ORDER\<close> as they are written. Such tokens are kept
  where they stand when they have at most 3 characters and dropped when they are longer, so
  the result is then neither ordered nor made of the seven codes.
\<close>

theorem canonical_days_mixed_case_not_recognised:
  "canonical_days (Some ''tu,mo'') None = ''tu,mo'' \<and>
   canonical_days (Some ''MO,TU,WE'') None = ''MO,TU,WE'' \<and>
   canonical_days (Some ''Mon,Tues,We'') None = ''We,Mon'' \<and>
   canonical_days (Some ''Monday,Tuesday'') (Some ''Friday'') = []"
  by code_simp

text \<open>
  Claim C4, as the code has it. For a non-blank \<^verbatim>\<open>days_str\<close>, whose comma-separated
  tokens (stripped, empty ones dropped) are \<open>day_parts s\<close>, \<^verbatim>\<open>canonical_days\<close> returns,
  joined by commas, the codes of \<^verbatim>\<open>DAY_ORDER\<close> that occur among the tokens letter for
  letter, once each and in the order of \<^verbatim>\<open>DAY_ORDER\<close>, followed by the tokens that are
  no code of \<^verbatim>\<open>DAY_ORDER\<close> and have at most 3 characters, in input order and as often
  as they occur. For an absent or blank \<^verbatim>\<open>days_str\<close> the result is the two-letter code
  of the fallback when the fallback, stripped and lower-cased, is a long weekday name, and
  the empty string otherwise.
\<close>

theorem canonical_days_spec:
  "(nonblank s \<longrightarrow>
      canonical_days (Some s) fb =
        py_join '','' (filter (\<lambda>d. d \<in> set (day_parts s)) DAY_ORDER @
                      filter (\<lambda>p. p \<notin> set DAY_ORDER \<and> length p \<le> 3) (day_parts s))) \<and>
   (days = None \<or> (\<exists>t. days = Some t \<and> \<not> nonblank t) \<longrightarrow>
      canonical_days days fb =
        (case fb of
           None \<Rightarrow> ''''
         | Some f \<Rightarrow>
             (case map_of DAY_MAP_LONG2ABBR (py_lower (py_strip f)) of
                None \<Rightarrow> ''''
              | Some code \<Rightarrow> code)))"
proof (intro conjI impI)
  assume "nonblank s"
  then show "canonical_days (Some s) fb =
        py_join '','' (filter (\<lambda>d. d \<in> set (day_parts s)) DAY_ORDER @
                      filter (\<lambda>p. p \<notin> set DAY_ORDER \<and> length p \<le> 3) (day_parts s))"
    by (simp add: canonical_days_def days_from_tokens_eq)
next
  assume a: "days = None \<or> (\<exists>t. days = Some t \<and> \<not> nonblank t)"
  have e: "map_of DAY_MAP_LONG2ABBR [] = None" by (simp add: DAY_MAP_LONG2ABBR_def)
  have "days_from_fallback fb = (case fb of
           None \<Rightarrow> ''''
         | Some f \<Rightarrow>
             (case map_of DAY_MAP_LONG2ABBR (py_lower (py_strip f)) of
                None \<Rightarrow> ''''
              | Some code \<Rightarrow> code))"
  proof (cases fb)
    case None
    then show ?thesis by (simp add: days_from_fallback_def)
  next
    case (Some f)
    show ?thesis
    proof (cases "nonblank f")
      case True
      then show ?thesis by (simp add: days_from_fallback_def Some)
    next
      case False
      then have "py_strip f = []" by (auto simp: nonblank_def py_strip_def)
      then show ?thesis using False by (simp add: days_from_fallback_def Some py_lower_def e)
    qed
  qed
  then show "canonical_days days fb =
        (case fb of
           None \<Rightarrow> ''''
         | Some f \<Rightarrow>
             (case map_of DAY_MAP_LONG2ABBR (py_lower (py_strip f)) of
                None \<Rightarrow> ''''
              | Some code \<Rightarrow> code))"
    using a by (auto simp: canonical_days_def)
qed

lemma days_example1: "canonical_days (Some ''Tu, Mo,xx,Monday,mo,Tu,xx'') None = ''Mo,Tu,xx,mo,xx''"
  by code_simp
lemma days_example2: "canonical_days (Some '' '') (Some '' MonDay '') = ''Mo''"
  by code_simp
lemma days_example3: "nonblank ''Tu, Mo,xx,Monday,mo,Tu,xx'' \<and> \<not> nonblank '' ''"
  by code_simp

theorem canonical_days_spec_witness:
  "nonblank ''Tu, Mo,xx,Monday,mo,Tu,xx'' \<and>
   canonical_days (Some ''Tu, Mo,xx,Monday,mo,Tu,xx'') None = ''Mo,Tu,xx,mo,xx'' \<and>
   \<not> nonblank '' '' \<and>
   canonical_days (Some '' '') (Some '' MonDay '') = ''Mo''"
  using canonical_days_spec[of "''Tu, Mo,xx,Monday,mo,Tu,xx''" None "Some '' ''" ]
        canonical_days_spec[of "'' ''" "Some '' MonDay ''" "Some '' ''"]
        days_example1 days_example2 days_example3
  by simp

section \<open>Properties of norm_time\<close>

lemma strptime_error: "strptime found = Inl e \<Longrightarrow> e = ValueError"
  by (auto simp: strptime_def split: list.splits if_splits prod.splits)

lemma norm_time_never_raises: "\<exists>r. norm_time t = Inr r"
proof (cases t)
  case None
  then show ?thesis by (simp add: norm_time_def)
next
  case (Some t')
  show ?thesis
    unfolding norm_time_def Some
    by (auto simp: Let_def dest: strptime_error split: sum.splits option.splits)
qed

text \<open>
  Claim C3. The docstring of \<^verbatim>\<open>norm_time\<close> and the claim promise the empty string for a
  text that is no time; the function ends with \<^verbatim>\<open>return s\<close> and gives the stripped text
  back. It raises nothing (\<open>norm_time_never_raises\<close>).
\<close>

theorem norm_time_unparseable_returns_input:
  "norm_time (Some ''abc'') = Inr ''abc'' \<and> norm_time (Some ''25:00'') = Inr ''25:00''"
  by code_simp

lemma norm_time_examples:
  "norm_time (Some ''7:00 AM'') = Inr ''07:00'' \<and> norm_time (Some '' 12 pm '') = Inr ''12:00'' \<and>
   norm_time (Some ''7:5'') = Inr ''07:05'' \<and> norm_time (Some ''  '') = Inr '''' \<and>
   norm_time None = Inr ''''"
  by code_simp

section \<open>Properties of build_schedule_signature: order and duplicates of the rows\<close>

lemma field_value_total: "\<exists>v. field_value r days f = Inr v"
  using norm_time_never_raises[of "r ''from_time''"] norm_time_never_raises[of "r ''to_time''"]
  by (auto simp: field_value_def split: option.splits)

lemma build_rec_total: "\<exists>rec'. build_rec r days fs rec = Inr rec'"
proof (induction fs arbitrary: rec)
  case Nil
  then show ?case by simp
next
  case (Cons f fs)
  obtain v where "field_value r days f = Inr v" using field_value_total by blast
  then show ?case using Cons.IH by simp
qed

lemma row_entry_total: "row_entry fields r = Inr (entry_of fields r)"
  using build_rec_total[of r "canonical_days (r ''days'') (r ''day'')" fields "[]"]
  by (auto simp: entry_of_def row_entry_def)

lemma map_result_total: "(\<And>x. f x = Inr (g x)) \<Longrightarrow> map_result f xs = Inr (map g xs)"
  by (induction xs) auto

lemma canonical_entries_eq:
  "canonical_entries rows fields =
     map_result json_loads
       (sorted_list_of_set (json_dumps_dict True True ` entry_of fields ` set rows))"
  by (simp add: canonical_entries_def map_result_total[where g = "entry_of fields"] row_entry_total
        image_image)

lemma entry_sets: "row_entry fields ` A = row_entry fields ` B \<Longrightarrow> entry_of fields ` A = entry_of fields ` B"
proof -
  assume a: "row_entry fields ` A = row_entry fields ` B"
  have "row_entry fields ` X = Inr ` entry_of fields ` X" for X
    by (simp add: image_image row_entry_total)
  then have "Inr ` entry_of fields ` A = (Inr ` entry_of fields ` B :: (py_error + pydict) set)"
    using a by simp
  then show ?thesis by (simp add: inj_image_eq_iff)
qed

text \<open>
  Claim C1. The pair (hash, canonical entry list) that \<^verbatim>\<open>build_schedule_signature\<close>
  returns depends on the rows only through the set of the records they normalize to: two
  row lists with the same set of normalized records give the same result. In particular
  two row lists with the same set of rows do, which covers every permutation of the rows
  and every duplication of rows.
\<close>

theorem build_schedule_signature_set_of_entries:
  "(set (map (row_entry fields) rows1) = set (map (row_entry fields) rows2) \<longrightarrow>
      build_schedule_signature rows1 fields = build_schedule_signature rows2 fields) \<and>
   (set rows1 = set rows2 \<longrightarrow>
      build_schedule_signature rows1 fields = build_schedule_signature rows2 fields)"
proof -
  have main: "build_schedule_signature rows1 fields = build_schedule_signature rows2 fields"
    if "row_entry fields ` set rows1 = row_entry fields ` set rows2"
    using entry_sets[OF that]
    by (simp add: build_schedule_signature_def canonical_entries_eq)
  show ?thesis
  proof (intro conjI impI)
    assume "set (map (row_entry fields) rows1) = set (map (row_entry fields) rows2)"
    then show "build_schedule_signature rows1 fields = build_schedule_signature rows2 fields"
      using main by simp
  next
    assume "set rows1 = set rows2"
    then show "build_schedule_signature rows1 fields = build_schedule_signature rows2 fields"
      using main by simp
  qed
qed

theorem build_schedule_signature_set_of_entries_witness:
  "set [map_of [(''days'', ''Mo'')], map_of [(''days'', ''Tu'')]] =
   set [map_of [(''days'', ''Tu'')], map_of [(''days'', ''Mo'')], map_of [(''days'', ''Tu'')]] \<and>
   build_schedule_signature [map_of [(''days'', ''Mo'')], map_of [(''days'', ''Tu'')]] [''days''] =
   build_schedule_signature
     [map_of [(''days'', ''Tu'')], map_of [(''days'', ''Mo'')], map_of [(''days'', ''Tu'')]] [''days'']"
proof -
  have s: "set [map_of [(''days'', ''Mo'')], map_of [(''days'', ''Tu'')]] =
   set [map_of [(''days'', ''Tu'')], map_of [(''days'', ''Mo'')], map_of [(''days'', ''Tu''::string)]]"
    by (simp add: insert_commute)
  show ?thesis
    using s build_schedule_signature_set_of_entries[of "[''days'']"
      "[map_of [(''days'', ''Mo'')], map_of [(''days'', ''Tu'')]]"
      "[map_of [(''days'', ''Tu'')], map_of [(''days'', ''Mo'')], map_of [(''days'', ''Tu'')]]"]
    by blast
qed

section \<open>json.loads reads back what json.dumps writes\<close>

lemma hex_val_hex_digit: "k < 16 \<Longrightarrow> hex_val (hex_digit k) = Some k"
  by (auto simp: hex_val_def hex_digit_def Let_def)

lemma hex4_u_escape:
  "hex4 CHR ''0'' CHR ''0'' (hex_digit ((of_char c :: nat) div 16)) (hex_digit ((of_char c :: nat) mod 16))
     = Some (of_char c)"
proof -
  have "(of_char c :: nat) < 256" by simp
  then have "(of_char c :: nat) div 16 < 16" by (simp add: less_mult_imp_div_less)
  then show ?thesis
    by (simp add: hex4_def hex_val_hex_digit) (simp add: hex_val_def)
qed

lemma scanstring_u_escape:
  "scanstring (u_escape c @ t) = cons_fst c (scanstring t)"
  using hex4_u_escape[of c] by (simp add: u_escape_def)

lemma scanstring_plain:
  "c \<noteq> DQUOTE \<Longrightarrow> c \<noteq> BSLASH \<Longrightarrow> \<not> (of_char c :: nat) < 32 \<Longrightarrow>
   scanstring (c # t) = cons_fst c (scanstring t)"
  by simp

lemma scanstring_escape: "scanstring (json_escape b c @ t) = cons_fst c (scanstring t)"
  unfolding json_escape_def Let_def
  by (simp add: scanstring_u_escape unescape_def del: scanstring.simps)
     (simp add: unescape_def)

lemma scanstring_body:
  "scanstring (concat (map (json_escape b) s) @ DQUOTE # rest) = Some (s, rest)"
  by (induction s) (simp_all add: scanstring_escape cons_fst_def)

lemma quoted_json_str: "quoted (json_str b s @ rest) = Some (s, rest)"
  by (simp add: quoted_def json_str_def scanstring_body)

lemma skip_ws_nonws: "\<not> json_ws c \<Longrightarrow> skip_ws (c # t) = c # t"
  by (simp add: skip_ws_def)

lemma skip_ws_space: "skip_ws (CHR '' '' # t) = skip_ws t"
  by (simp add: skip_ws_def json_ws_def)

lemma skip_ws_json_str: "skip_ws (json_str b s @ t) = json_str b s @ t"
  by (simp add: json_str_def skip_ws_nonws json_ws_def)

lemma members_step_comma:
  "members acc (json_item b kv @ '', '' @ t) = members (dict_set acc (fst kv) (snd kv)) (skip_ws t)"
  by (subst members.simps)
     (simp add: json_item_def quoted_json_str skip_ws_nonws skip_ws_space skip_ws_json_str json_ws_def)

lemma members_step_close:
  "members acc (json_item b kv @ ''}'' @ t) = Some (dict_set acc (fst kv) (snd kv), t)"
  by (subst members.simps)
     (simp add: json_item_def quoted_json_str skip_ws_nonws skip_ws_space skip_ws_json_str json_ws_def)

lemma skip_ws_items:
  "skip_ws (py_join '', '' (map (json_item b) (kv # kvs)) @ t) =
     py_join '', '' (map (json_item b) (kv # kvs)) @ t"
  by (cases kvs) (simp_all add: json_item_def skip_ws_json_str)

lemma members_items:
  "kvs \<noteq> [] \<Longrightarrow>
   members acc (py_join '', '' (map (json_item b) kvs) @ ''}'' @ t) =
     Some (foldl (\<lambda>a kv. dict_set a (fst kv) (snd kv)) acc kvs, t)"
proof (induction kvs arbitrary: acc)
  case Nil
  then show ?case by simp
next
  case (Cons kv kvs)
  show ?case
  proof (cases kvs)
    case Nil
    then show ?thesis using members_step_close[of acc b kv t] by simp
  next
    case (Cons kv' kvs')
    have "members acc (py_join '', '' (map (json_item b) (kv # kvs)) @ ''}'' @ t) =
          members acc (json_item b kv @ '', '' @ (py_join '', '' (map (json_item b) kvs) @ ''}'' @ t))"
      by (simp add: Cons)
    also have "\<dots> = members (dict_set acc (fst kv) (snd kv))
                        (py_join '', '' (map (json_item b) kvs) @ ''}'' @ t)"
      unfolding members_step_comma using skip_ws_items[of b kv' kvs'] by (simp add: Cons)
    finally show ?thesis using Cons.IH[of "dict_set acc (fst kv) (snd kv)"] Cons by simp
  qed
qed

lemma dict_set_new: "k \<notin> fst ` set d \<Longrightarrow> dict_set d k v = d @ [(k, v)]"
  by (induction d) auto

lemma foldl_dict_set_distinct:
  "distinct (map fst kvs) \<Longrightarrow> fst ` set acc \<inter> fst ` set kvs = {} \<Longrightarrow>
   foldl (\<lambda>a kv. dict_set a (fst kv) (snd kv)) acc kvs = acc @ kvs"
proof (induction kvs arbitrary: acc)
  case Nil
  then show ?case by simp
next
  case (Cons kv kvs)
  have "dict_set acc (fst kv) (snd kv) = acc @ [kv]" using Cons.prems by (simp add: dict_set_new)
  moreover have "fst ` set (acc @ [kv]) \<inter> fst ` set kvs = {}" using Cons.prems by auto
  ultimately show ?case using Cons.IH[of "acc @ [kv]"] Cons.prems by simp
qed

lemma json_object_dumps:
  assumes "distinct (map fst d)"
  shows "json_object (json_dumps_dict sk b d @ t) = Some (if sk then sort_key fst d else d, t)"
proof -
  define items where "items = (if sk then sort_key fst d else d)"
  have dist: "distinct (map fst items)"
    using assms by (simp add: distinct_map items_def)
  show ?thesis
  proof (cases items)
    case Nil
    then show ?thesis
      using items_def by (simp add: json_object_def json_dumps_dict_def skip_ws_nonws json_ws_def)
  next
    case (Cons kv kvs)
    define X where "X = py_join '', '' (map (json_item b) items) @ ''}'' @ t"
    have sk: "skip_ws X = X"
      unfolding X_def Cons by (rule skip_ws_items)
    have hd: "X \<noteq> [] \<and> hd X = DQUOTE"
      unfolding X_def Cons by (cases kvs) (simp_all add: json_item_def json_str_def)
    have "json_object (CHR ''{'' # X) = members [] X"
      using sk hd by (cases X) (auto simp: json_object_def)
    then have "json_object (''{'' @ py_join '', '' (map (json_item b) items) @ ''}'' @ t) =
          members [] (py_join '', '' (map (json_item b) items) @ ''}'' @ t)"
      by (simp add: X_def)
    then show ?thesis
      using members_items[of items "[]" b t] foldl_dict_set_distinct[OF dist, of "[]"] Cons
      by (simp add: json_dumps_dict_def items_def[symmetric])
  qed
qed

lemma json_loads_dumps:
  "distinct (map fst d) \<Longrightarrow>
   json_loads (json_dumps_dict sk b d) = Inr (if sk then sort_key fst d else d)"
proof -
  assume d: "distinct (map fst d)"
  have "skip_ws (json_dumps_dict sk b d) = json_dumps_dict sk b d"
    by (simp add: json_dumps_dict_def skip_ws_nonws json_ws_def)
  then show ?thesis
    using json_object_dumps[OF d, of sk b "[]"] by (simp add: json_loads_def skip_ws_def)
qed

section \<open>Properties of build_schedule_signature: different records\<close>

lemma map_fst_dict_set:
  "map fst (dict_set d k v) = (if k \<in> set (map fst d) then map fst d else map fst d @ [k])"
  by (induction d) fastforce+

lemma build_rec_keys:
  "build_rec r days fs rec = Inr a \<Longrightarrow> build_rec r' days' fs rec' = Inr a' \<Longrightarrow>
   map fst rec = map fst rec' \<Longrightarrow> distinct (map fst rec) \<Longrightarrow>
   map fst a = map fst a' \<and> distinct (map fst a)"
proof (induction fs arbitrary: rec rec')
  case Nil
  then show ?case by simp
next
  case (Cons f fs)
  obtain v where v: "field_value r days f = Inr v" using field_value_total by blast
  obtain v' where v': "field_value r' days' f = Inr v'" using field_value_total by blast
  have "map fst (dict_set rec f v) = map fst (dict_set rec' f v')"
    using Cons.prems(3) by (simp add: map_fst_dict_set)
  moreover have "distinct (map fst (dict_set rec f v))"
    using Cons.prems(4) by (simp add: map_fst_dict_set)
  moreover have "build_rec r days fs (dict_set rec f v) = Inr a"
    using Cons.prems(1) v by simp
  moreover have "build_rec r' days' fs (dict_set rec' f v') = Inr a'"
    using Cons.prems(2) v' by simp
  ultimately show ?case
    using Cons.IH[of "dict_set rec f v" "dict_set rec' f v'"] by blast
qed

lemma entry_of_keys:
  "map fst (entry_of fields r) = map fst (entry_of fields r') \<and> distinct (map fst (entry_of fields r))"
proof -
  have a: "build_rec r (canonical_days (r ''days'') (r ''day'')) fields [] = Inr (entry_of fields r)"
    using row_entry_total[of fields r] by (simp add: row_entry_def)
  have b: "build_rec r' (canonical_days (r' ''days'') (r' ''day'')) fields [] = Inr (entry_of fields r')"
    using row_entry_total[of fields r'] by (simp add: row_entry_def)
  have c: "map fst ([] :: pydict) = map fst ([] :: pydict)" and d: "distinct (map fst ([] :: pydict))"
    by simp_all
  from build_rec_keys[OF a b c d] show ?thesis .
qed

lemma same_keys_same_set:
  "map fst xs = map fst ys \<Longrightarrow> distinct (map fst xs) \<Longrightarrow> set xs = set ys \<Longrightarrow> xs = ys"
proof (induction xs arbitrary: ys)
  case Nil
  then show ?case by simp
next
  case (Cons x xs)
  then obtain y ys' where ys: "ys = y # ys'" by (cases ys) auto
  have k: "fst x = fst y" "map fst xs = map fst ys'" using Cons.prems(1) ys by auto
  have "x \<in> set ys" using Cons.prems(3) by auto
  moreover have "fst x \<notin> fst ` set ys'" using Cons.prems(2) k by (metis distinct.simps(2) list.simps(9) set_map)
  ultimately have xy: "x = y" using ys by auto
  have "fst x \<notin> fst ` set xs" using Cons.prems(2) by auto
  then have "x \<notin> set xs" by force
  moreover have "y \<notin> set ys'" using \<open>fst x \<notin> fst ` set ys'\<close> xy by force
  ultimately have "x \<notin> set xs" "y \<notin> set ys'" by simp_all
  then have "set xs = set ys'" using Cons.prems(3) ys xy by auto
  then show ?case using Cons.IH[of ys'] k Cons.prems(2) ys xy by simp
qed

lemma sort_key_fst_inj:
  assumes "map fst e1 = map fst e2" "distinct (map fst e1)" "sort_key fst e1 = sort_key fst e2"
  shows "e1 = e2"
proof -
  have "set (sort_key fst e1) = set (sort_key fst e2)" using assms(3) by simp
  then have "set e1 = set e2" by simp
  then show ?thesis using assms same_keys_same_set by blast
qed

lemma map_result_total_on:
  "(\<And>x. x \<in> set xs \<Longrightarrow> f x = Inr (g x)) \<Longrightarrow> map_result f xs = Inr (map g xs)"
  by (induction xs) auto

lemma canonical_entries_set:
  "\<exists>es. canonical_entries rows fields = Inr es \<and>
        set es = sort_key fst ` entry_of fields ` set rows"
proof -
  define S where "S = json_dumps_dict True True ` entry_of fields ` set rows"
  define g where "g = (\<lambda>s. case json_loads s of Inl e \<Rightarrow> [] | Inr d \<Rightarrow> d)"
  have fin: "finite S" by (simp add: S_def)
  have rt: "json_loads (json_dumps_dict True True (entry_of fields r)) = Inr (sort_key fst (entry_of fields r))" for r
    using json_loads_dumps[of "entry_of fields r" True True] entry_of_keys[of fields r] by simp
  have "json_loads s = Inr (g s)" if "s \<in> set (sorted_list_of_set S)" for s
    using that fin rt by (auto simp: S_def g_def)
  then have 1: "canonical_entries rows fields = Inr (map g (sorted_list_of_set S))"
    unfolding canonical_entries_eq S_def[symmetric] by (rule map_result_total_on)
  have "g ` S = sort_key fst ` entry_of fields ` set rows"
    by (auto simp: S_def g_def rt image_iff)
  then have "set (map g (sorted_list_of_set S)) = sort_key fst ` entry_of fields ` set rows"
    using fin by simp
  then show ?thesis using 1 by blast
qed

lemma py_join_list_tail:
  "py_join '', '' (json_dumps_dict sk b d # map (json_dumps_dict sk b) ds) @ '']'' =
     json_dumps_dict sk b d @ list_tail sk b ds"
  by (cases ds) (simp_all add: list_tail_def)

lemma list_tail_Cons:
  "list_tail sk b (d # ds) = '', '' @ json_dumps_dict sk b d @ list_tail sk b ds"
  using py_join_list_tail[of sk b d ds] by (simp add: list_tail_def)

lemma json_dumps_list_Cons:
  "json_dumps_list sk b (d # ds) = CHR ''['' # json_dumps_dict sk b d @ list_tail sk b ds"
  using py_join_list_tail[of sk b d ds] by (simp add: json_dumps_list_def)

lemma json_dumps_dict_hd: "\<exists>t. json_dumps_dict sk b d = CHR ''{'' # t"
  by (simp add: json_dumps_dict_def)

lemma list_tail_inj:
  "list_tail True b ds1 = list_tail True b ds2 \<Longrightarrow>
   \<forall>d\<in>set ds1 \<union> set ds2. distinct (map fst d) \<Longrightarrow>
   map (sort_key fst) ds1 = map (sort_key fst) ds2"
proof (induction ds1 arbitrary: ds2)
  case Nil
  then show ?case by (cases ds2) (simp_all add: list_tail_Cons, simp add: list_tail_def)
next
  case (Cons d1 ds1)
  then obtain d2 ds2' where ds2: "ds2 = d2 # ds2'"
    by (cases ds2) (simp_all add: list_tail_Cons, simp add: list_tail_def)
  have "json_dumps_dict True b d1 @ list_tail True b ds1 = json_dumps_dict True b d2 @ list_tail True b ds2'"
    using Cons.prems(1) unfolding ds2 by (simp add: list_tail_Cons)
  then have "json_object (json_dumps_dict True b d1 @ list_tail True b ds1) =
             json_object (json_dumps_dict True b d2 @ list_tail True b ds2')" by simp
  then have "sort_key fst d1 = sort_key fst d2 \<and> list_tail True b ds1 = list_tail True b ds2'"
    using Cons.prems(2) ds2 by (simp add: json_object_dumps)
  then show ?case using Cons.IH[of ds2'] Cons.prems(2) ds2 by simp
qed

lemma json_dumps_list_inj:
  assumes "json_dumps_list True b ds1 = json_dumps_list True b ds2"
    and "\<forall>d\<in>set ds1 \<union> set ds2. distinct (map fst d)"
  shows "map (sort_key fst) ds1 = map (sort_key fst) ds2"
proof -
  have "list_tail True b ds1 = list_tail True b ds2"
  proof (cases ds1)
    case Nil
    show ?thesis
    proof (cases ds2)
      case Nil
      then show ?thesis using \<open>ds1 = []\<close> by simp
    next
      case (Cons d2 ds2')
      obtain t where "json_dumps_dict True b d2 = CHR ''{'' # t" using json_dumps_dict_hd by blast
      then show ?thesis using assms(1) \<open>ds1 = []\<close>
        unfolding Cons json_dumps_list_Cons by (simp add: json_dumps_list_def)
    qed
  next
    case (Cons d1 ds1')
    show ?thesis
    proof (cases ds2)
      case Nil
      obtain t where "json_dumps_dict True b d1 = CHR ''{'' # t" using json_dumps_dict_hd by blast
      then show ?thesis using assms(1) \<open>ds2 = []\<close>
        unfolding Cons json_dumps_list_Cons by (simp add: json_dumps_list_def)
    next
      case c2: (Cons d2 ds2')
      show ?thesis using assms(1) unfolding Cons c2 json_dumps_list_Cons list_tail_Cons by simp
    qed
  qed
  then show ?thesis using assms(2) by (rule list_tail_inj)
qed

lemma utf8_char_prefix:
  "utf8_char c @ r = utf8_char c' @ r' \<Longrightarrow> c = c' \<and> r = r'"
proof -
  assume a: "utf8_char c @ r = utf8_char c' @ r'"
  define n where "n = (of_char c :: nat)"
  define n' where "n' = (of_char c' :: nat)"
  have e: "(if n < 128 then [n] else [192 + n div 64, 128 + n mod 64]) @ r =
           (if n' < 128 then [n'] else [192 + n' div 64, 128 + n' mod 64]) @ r'"
    using a unfolding utf8_char_def Let_def n_def n'_def by assumption
  have "n = n' \<and> r = r'"
  proof (cases "n < 128")
    case True
    show ?thesis
    proof (cases "n' < 128")
      case t: True
      then show ?thesis using e True by simp
    next
      case False
      then show ?thesis using e True by simp
    qed
  next
    case False
    show ?thesis
    proof (cases "n' < 128")
      case True
      then show ?thesis using e False by simp
    next
      case f: False
      then have "n div 64 = n' div 64" "n mod 64 = n' mod 64" "r = r'" using e False by simp_all
      then show ?thesis by (metis div_mult_mod_eq)
    qed
  qed
  then show ?thesis by (simp add: n_def n'_def)
qed

lemma utf8_concat_inj:
  "concat (map utf8_char s1) = concat (map utf8_char s2) \<Longrightarrow> s1 = s2"
proof (induction s1 arbitrary: s2)
  case Nil
  then show ?case by (cases s2) (auto simp: utf8_char_def Let_def split: if_splits)
next
  case (Cons c s1)
  then obtain c' s2' where s2: "s2 = c' # s2'"
    by (cases s2) (auto simp: utf8_char_def Let_def split: if_splits)
  then show ?case using Cons utf8_char_prefix[of c _ c'] by auto
qed

lemma utf8_char_small: "n \<in> set (utf8_char c) \<Longrightarrow> n < 256"
proof -
  have "(of_char c :: nat) < 256" by simp
  then have "(of_char c :: nat) div 64 < 4" by (simp add: less_mult_imp_div_less)
  moreover assume "n \<in> set (utf8_char c)"
  ultimately show ?thesis
    using \<open>(of_char c :: nat) < 256\<close> by (auto simp: utf8_char_def Let_def split: if_splits)
qed

lemma utf8_bytes_small: "n \<in> set (concat (map utf8_char s)) \<Longrightarrow> n < 256"
  by (auto dest: utf8_char_small)

lemma byte_of_nat_inj: "inj_on (of_nat :: nat \<Rightarrow> 8 word) {..<256}"
proof (rule inj_onI)
  fix x y :: nat
  assume x: "x \<in> {..<256}" and y: "y \<in> {..<256}" and "(of_nat x :: 8 word) = of_nat y"
  then have "unat (of_nat x :: 8 word) = unat (of_nat y :: 8 word)" by simp
  then show "x = y" using x y by (simp add: unat_of_nat)
qed

lemma utf8_encode_inj: "utf8_encode s1 = utf8_encode s2 \<Longrightarrow> s1 = s2"
proof -
  assume a: "utf8_encode s1 = utf8_encode s2"
  have "inj_on (of_nat :: nat \<Rightarrow> 8 word) (set (concat (map utf8_char s1)) \<union> set (concat (map utf8_char s2)))"
    by (rule inj_on_subset[OF byte_of_nat_inj]) (auto intro: utf8_char_small)
  then have "concat (map utf8_char s1) = concat (map utf8_char s2)"
    using a unfolding utf8_encode_def by (simp add: inj_on_map_eq_map)
  then show ?thesis by (rule utf8_concat_inj)
qed

lemma hex32_length: "length (hex32 w) = 8"
  by (simp add: hex32_def)

lemma sha1_hexdigest_length: "length (sha1_hexdigest m) = 40"
  by (cases "sha1 m") (simp add: sha1_hexdigest_def hex32_length)

lemma sort_key_fst_sorted_id: "sort_key fst (sort_key fst e) = sort_key fst e"
  by (simp add: sort_key_id_if_sorted)

lemma canonical_entries_differ:
  assumes "row_entry fields ` set rows1 \<noteq> row_entry fields ` set rows2"
  shows "\<exists>es1 es2. canonical_entries rows1 fields = Inr es1 \<and>
                   canonical_entries rows2 fields = Inr es2 \<and>
                   es1 \<noteq> es2 \<and> signature_raw es1 \<noteq> signature_raw es2"
proof -
  obtain es1 where es1: "canonical_entries rows1 fields = Inr es1"
      "set es1 = sort_key fst ` entry_of fields ` set rows1"
    using canonical_entries_set[of rows1 fields] by auto
  obtain es2 where es2: "canonical_entries rows2 fields = Inr es2"
      "set es2 = sort_key fst ` entry_of fields ` set rows2"
    using canonical_entries_set[of rows2 fields] by auto
  have ne: "entry_of fields ` set rows1 \<noteq> entry_of fields ` set rows2"
  proof
    assume "entry_of fields ` set rows1 = entry_of fields ` set rows2"
    then have "Inr ` entry_of fields ` set rows1 = (Inr ` entry_of fields ` set rows2 :: (py_error + pydict) set)"
      by simp
    then show False using assms by (simp add: image_image row_entry_total)
  qed
  have inj: "e1 = e2"
    if m1: "e1 \<in> entry_of fields ` (set rows1 \<union> set rows2)"
       and m2: "e2 \<in> entry_of fields ` (set rows1 \<union> set rows2)"
       and m3: "sort_key fst e1 = sort_key fst e2" for e1 e2
  proof -
    obtain r where r: "e1 = entry_of fields r" using m1 by blast
    obtain r' where r': "e2 = entry_of fields r'" using m2 by blast
    from entry_of_keys[of fields r r']
    have k1: "map fst e1 = map fst e2" and k2: "distinct (map fst e1)"
      unfolding r r' by blast+
    from sort_key_fst_inj[OF k1 k2 m3] show ?thesis .
  qed
  have sne: "set es1 \<noteq> set es2"
  proof
    assume eq: "set es1 = set es2"
    have "entry_of fields ` set rows1 = entry_of fields ` set rows2"
    proof (rule inj_on_image_eq_iff[THEN iffD1])
      show "inj_on (sort_key fst) (entry_of fields ` (set rows1 \<union> set rows2))"
        using inj by (auto simp: inj_on_def)
      show "sort_key fst ` entry_of fields ` set rows1 = sort_key fst ` entry_of fields ` set rows2"
        using eq es1(2) es2(2) by simp
    qed auto
    then show False using ne by simp
  qed
  then have lne: "es1 \<noteq> es2" by auto
  have dist: "\<forall>d\<in>set es1 \<union> set es2. distinct (map fst d)"
    using es1(2) es2(2) entry_of_keys by (auto simp: distinct_map)
  have id: "map (sort_key fst) es = es" if "set es = sort_key fst ` entry_of fields ` set rows" for es rows
  proof -
    have "\<forall>e\<in>set es. sort_key fst e = e" using that by (auto simp: sort_key_fst_sorted_id)
    then show ?thesis by (simp add: map_idI)
  qed
  have "signature_raw es1 \<noteq> signature_raw es2"
  proof
    assume "signature_raw es1 = signature_raw es2"
    then have "json_dumps_list True False es1 = json_dumps_list True False es2"
      unfolding signature_raw_def by (rule utf8_encode_inj)
    then have "map (sort_key fst) es1 = map (sort_key fst) es2"
      using dist by (rule json_dumps_list_inj)
    then show False using lne id[OF es1(2)] id[OF es2(2)] by simp
  qed
  then show ?thesis using es1(1) es2(1) lne by blast
qed

text \<open>
  When the sets of normalized records of two row lists differ, \<^verbatim>\<open>build_schedule_signature\<close>
  returns different canonical entry lists and hashes different byte strings: the two hashes
  are the SHA-1 digests of two different messages. Whether the digests differ too is a
  question about SHA-1 that is not settled here.
\<close>

lemma signature_distinguishes_entries:
  assumes "set (map (row_entry fields) rows1) \<noteq> set (map (row_entry fields) rows2)"
  shows "\<exists>es1 es2.
           build_schedule_signature rows1 fields = Inr (sha1_hexdigest (signature_raw es1), es1) \<and>
           build_schedule_signature rows2 fields = Inr (sha1_hexdigest (signature_raw es2), es2) \<and>
           es1 \<noteq> es2 \<and> signature_raw es1 \<noteq> signature_raw es2"
proof -
  have "row_entry fields ` set rows1 \<noteq> row_entry fields ` set rows2" using assms by simp
  from canonical_entries_differ[OF this] show ?thesis
    by (auto simp: build_schedule_signature_def)
qed

lemma row_entry_one_field:
  "row_entry [''a''] (Map.empty(''a'' \<mapsto> v)) = Inr [(''a'', v)]"
  by (simp add: row_entry_def field_value_def)

lemma signature_distinguishes_entries_example:
  "set (map (row_entry [''a'']) [map_of [(''a'', ''1'')]]) \<noteq>
   set (map (row_entry [''a'']) [map_of [(''a'', ''2'')]]) \<and>
   (\<exists>es1 es2.
      build_schedule_signature [map_of [(''a'', ''1'')]] [''a''] =
        Inr (sha1_hexdigest (signature_raw es1), es1) \<and>
      build_schedule_signature [map_of [(''a'', ''2'')]] [''a''] =
        Inr (sha1_hexdigest (signature_raw es2), es2) \<and>
      es1 \<noteq> es2 \<and> signature_raw es1 \<noteq> signature_raw es2)"
proof (rule conjI)
  show h: "set (map (row_entry [''a'']) [map_of [(''a'', ''1'')]]) \<noteq>
           set (map (row_entry [''a'']) [map_of [(''a'', ''2'')]])"
    by (simp add: row_entry_one_field)
  show "\<exists>es1 es2.
      build_schedule_signature [map_of [(''a'', ''1'')]] [''a''] =
        Inr (sha1_hexdigest (signature_raw es1), es1) \<and>
      build_schedule_signature [map_of [(''a'', ''2'')]] [''a''] =
        Inr (sha1_hexdigest (signature_raw es2), es2) \<and>
      es1 \<noteq> es2 \<and> signature_raw es1 \<noteq> signature_raw es2"
    by (rule signature_distinguishes_entries[of "[''a'']" "[map_of [(''a'', ''1'')]]" "[map_of [(''a'', ''2'')]]", OF h])
qed

text \<open>
  A digest has 40 characters, so among the rows whose one field holds \<open>n\<close> times the
  letter x, for all \<open>n\<close>, two with different records have the same hash. The argument
  counts: it names no such pair.
\<close>

lemma signature_hash_collision:
  "\<exists>n m h es1 es2.
     set (map (row_entry [''a'']) [map_of [(''a'', replicate n CHR ''x'')]]) \<noteq>
     set (map (row_entry [''a'']) [map_of [(''a'', replicate m CHR ''x'')]]) \<and>
     build_schedule_signature [map_of [(''a'', replicate n CHR ''x'')]] [''a''] = Inr (h, es1) \<and>
     build_schedule_signature [map_of [(''a'', replicate m CHR ''x'')]] [''a''] = Inr (h, es2)"
proof -
  define rows where "rows = (\<lambda>n. [map_of [(''a'', replicate n CHR ''x'')]] :: row list)"
  define H where "H = (\<lambda>n. case build_schedule_signature (rows n) [''a''] of
                              Inl e \<Rightarrow> [] | Inr (h, es) \<Rightarrow> h)"
  have tot: "\<exists>es. build_schedule_signature (rows n) [''a''] = Inr (H n, es)" for n
  proof -
    obtain es where "canonical_entries (rows n) [''a''] = Inr es"
      using canonical_entries_set[of "rows n" "[''a'']"] by auto
    then show ?thesis by (simp add: build_schedule_signature_def H_def)
  qed
  have len: "length (H n) = 40" for n
  proof -
    obtain es where es: "canonical_entries (rows n) [''a''] = Inr es"
      using canonical_entries_set[of "rows n" "[''a'']"] by auto
    then show ?thesis by (simp add: build_schedule_signature_def H_def sha1_hexdigest_length)
  qed
  have "range H \<subseteq> {s. set s \<subseteq> UNIV \<and> length s = 40}" using len by auto
  moreover have "finite {s :: string. set s \<subseteq> UNIV \<and> length s = 40}"
    by (rule finite_lists_length_eq) simp
  ultimately have "finite (range H)" by (rule finite_subset)
  then have "\<not> inj H" using finite_imageD[of H UNIV] by auto
  then obtain n m where nm: "n \<noteq> m" "H n = H m" by (auto simp: inj_on_def)
  obtain es1 where es1: "build_schedule_signature (rows n) [''a''] = Inr (H n, es1)" using tot by blast
  obtain es2 where es2: "build_schedule_signature (rows m) [''a''] = Inr (H n, es2)"
    using tot[of m] nm(2) by auto
  have "replicate n CHR ''x'' \<noteq> replicate m CHR ''x''"
    using nm(1) by (metis length_replicate)
  then have "set (map (row_entry [''a'']) (rows n)) \<noteq> set (map (row_entry [''a'']) (rows m))"
    by (simp add: rows_def row_entry_one_field)
  then show ?thesis using es1 es2 unfolding rows_def
    by (intro exI[of _ n] exI[of _ m] exI[of _ "H n"] exI[of _ es1] exI[of _ es2]) simp
qed

section \<open>Properties of haversine_m\<close>

lemma cos_cos_bounds:
  fixes x y :: real
  shows "- (sin ((y - x) / 2))\<^sup>2 \<le> cos x * cos y" and "cos x * cos y \<le> 1 - (sin ((y - x) / 2))\<^sup>2"
proof -
  have "2 * ((y - x) / 2) = y - x" by simp
  then have s: "cos (y - x) = 1 - 2 * (sin ((y - x) / 2))\<^sup>2"
    using cos_double_sin[of "(y - x) / 2"] by metis
  have p: "2 * (cos x * cos y) = cos (y - x) + cos (y + x)"
    by (simp add: cos_add cos_diff)
  have b: "- 1 \<le> cos (y + x)" "cos (y + x) \<le> 1" by simp_all
  show "- (sin ((y - x) / 2))\<^sup>2 \<le> cos x * cos y" using s p b by linarith
  show "cos x * cos y \<le> 1 - (sin ((y - x) / 2))\<^sup>2" using s p b by linarith
qed

lemma haversine_a_bounds:
  shows "0 \<le> haversine_a lat1 lon1 lat2 lon2" and "haversine_a lat1 lon1 lat2 lon2 \<le> 1"
proof -
  define s1 where "s1 = (sin ((radians lat2 - radians lat1) / 2))\<^sup>2"
  define s2 where "s2 = (sin (radians (lon2 - lon1) / 2))\<^sup>2"
  define c where "c = cos (radians lat1) * cos (radians lat2)"
  have a: "haversine_a lat1 lon1 lat2 lon2 = s1 + c * s2"
    by (simp add: haversine_a_def s1_def s2_def c_def)
  have s1: "0 \<le> s1" "s1 \<le> 1" and s2: "0 \<le> s2" "s2 \<le> 1"
    by (simp_all add: s1_def s2_def abs_square_le_1)
  have c: "- s1 \<le> c" "c \<le> 1 - s1"
    unfolding s1_def c_def by (rule cos_cos_bounds(1), rule cos_cos_bounds(2))
  have lo: "- s1 \<le> c * s2"
  proof (cases "0 \<le> c")
    case True
    then have "0 \<le> c * s2" using s2 by simp
    then show ?thesis using s1 by linarith
  next
    case False
    then have "c * 1 \<le> c * s2" using s2 by (intro mult_left_mono_neg) simp_all
    then show ?thesis using c by linarith
  qed
  have hi: "c * s2 \<le> 1 - s1"
  proof (cases "0 \<le> c")
    case True
    then have "c * s2 \<le> c * 1" using s2 by (intro mult_left_mono) simp_all
    then show ?thesis using c by linarith
  next
    case False
    then have "c * s2 \<le> 0" using s2 by (simp add: mult_le_0_iff)
    then show ?thesis using s1 by linarith
  qed
  show "0 \<le> haversine_a lat1 lon1 lat2 lon2" using a lo by linarith
  show "haversine_a lat1 lon1 lat2 lon2 \<le> 1" using a hi by linarith
qed

text \<open>
  In the arithmetic that does not round, \<^verbatim>\<open>haversine_m\<close> raises nothing on finite
  coordinates and returns the great-circle distance.
\<close>

lemma haversine_m_exact:
  "haversine_m exact_arith (Fl lat1) (Fl lon1) (Fl lat2) (Fl lon2) =
     Inr (Fl (great_circle lat1 lon1 lat2 lon2))"
proof -
  define A where "A = haversine_a lat1 lon1 lat2 lon2"
  have A: "0 \<le> A" "A \<le> 1"
    using haversine_a_bounds(1)[of lat1 lon1 lat2 lon2] haversine_a_bounds(2)[of lat1 lon1 lat2 lon2]
    by (simp_all add: A_def)
  have e: "sin ((radians lat2 - radians lat1) / 2) * sin ((radians lat2 - radians lat1) / 2) +
           cos (radians lat1) * cos (radians lat2) *
           (sin (radians (lon2 - lon1) / 2) * sin (radians (lon2 - lon1) / 2)) = A"
    by (simp add: A_def haversine_a_def power2_eq_square)
  have r: "ex_sqrt (Fl A) = Inr (Fl (sqrt A))" using A by (simp add: ex_sqrt_def)
  have "0 \<le> sqrt A" using A by simp
  then have n1: "\<not> sqrt A < - 1" by linarith
  have n2: "\<not> 1 < sqrt A" using A by simp
  have t: "ex_asin (Fl (sqrt A)) = Inr (Fl (arcsin (sqrt A)))"
    unfolding ex_asin_def using n1 n2 by (simp only: exact_float.case simp_thms if_False)
  show ?thesis
    unfolding haversine_m_def exact_arith_def Let_def
    by (simp add: and_then_def ex_radians_def ex_sub_def ex_add_def ex_neg_def ex_div_def ex_sin_def
          ex_cos_def ex_mul_def EARTH_RADIUS_M_def great_circle_def e r t A_def[symmetric])
qed

lemma great_circle_nonneg: "0 \<le> great_circle lat1 lon1 lat2 lon2"
proof -
  have "0 \<le> sqrt (haversine_a lat1 lon1 lat2 lon2)" "sqrt (haversine_a lat1 lon1 lat2 lon2) \<le> 1"
    using haversine_a_bounds(1)[of lat1 lon1 lat2 lon2] haversine_a_bounds(2)[of lat1 lon1 lat2 lon2]
    by simp_all
  then have "0 \<le> arcsin (sqrt (haversine_a lat1 lon1 lat2 lon2))"
    by (simp add: arcsin_nonneg)
  then show ?thesis by (simp add: great_circle_def)
qed

lemma haversine_a_sym: "haversine_a lat1 lon1 lat2 lon2 = haversine_a lat2 lon2 lat1 lon1"
proof -
  have "(radians lat2 - radians lat1) / 2 = - ((radians lat1 - radians lat2) / 2)" by argo
  then have "sin ((radians lat2 - radians lat1) / 2) = - sin ((radians lat1 - radians lat2) / 2)"
    by (simp only: sin_minus)
  moreover have "radians (lon2 - lon1) / 2 = - (radians (lon1 - lon2) / 2)"
    unfolding radians_def by argo
  then have "sin (radians (lon2 - lon1) / 2) = - sin (radians (lon1 - lon2) / 2)"
    by (simp only: sin_minus)
  ultimately show ?thesis by (simp add: haversine_a_def)
qed

lemma great_circle_sym: "great_circle lat1 lon1 lat2 lon2 = great_circle lat2 lon2 lat1 lon1"
  by (simp add: great_circle_def haversine_a_sym[of lat1 lon1 lat2 lon2])

lemma great_circle_same: "great_circle lat lon lat lon = 0"
  by (simp add: great_circle_def haversine_a_def radians_def)

section \<open>Properties of UnionFind\<close>

lemma reaches_bounds: "reaches p i d x \<Longrightarrow> i < length p \<and> x < length p \<and> p ! x = x"
  by (induction rule: reaches.induct) auto

lemma reaches_zero: "reaches p i 0 x \<Longrightarrow> x = i \<and> p ! i = i"
  by (cases rule: reaches.cases) auto

lemma reaches_Suc: "reaches p i (Suc d) x \<Longrightarrow> p ! i \<noteq> i \<and> reaches p (p ! i) d x"
  by (cases rule: reaches.cases) auto

lemma reaches_unique: "reaches p i d x \<Longrightarrow> reaches p i d' x' \<Longrightarrow> d = d' \<and> x = x'"
proof (induction arbitrary: d' x' rule: reaches.induct)
  case (reaches_root i p)
  show ?case
  proof (cases d')
    case 0
    then show ?thesis using reaches_zero[of p i x'] reaches_root.prems by simp
  next
    case (Suc e)
    then show ?thesis using reaches_Suc[of p i e x'] reaches_root.prems reaches_root.hyps by simp
  qed
next
  case (reaches_step i p d x)
  show ?case
  proof (cases d')
    case 0
    then show ?thesis using reaches_zero[of p i x'] reaches_step.prems reaches_step.hyps by simp
  next
    case (Suc e)
    then have "reaches p (p ! i) e x'" using reaches_Suc[of p i e x'] reaches_step.prems by simp
    then have "d = e \<and> x = x'" by (rule reaches_step.IH)
    then show ?thesis using Suc by simp
  qed
qed

lemma rep_of_eq: "reaches p i d x \<Longrightarrow> rep_of p i = x"
  unfolding rep_of_def by (rule the_equality) (auto dest: reaches_unique)

lemma forest_reaches: "forest p \<Longrightarrow> i < length p \<Longrightarrow> \<exists>d. reaches p i d (rep_of p i)"
  by (metis forest_def rep_of_eq)






lemma bind_res_ret: "bind_res (ret v) f = f v"
  by (simp add: bind_res_def ret_def)

lemma bind_res_Some: "bind_res (Some (Inr v)) f = f v"
  by (simp add: bind_res_def)




lemma rep_of_root: "forest p \<Longrightarrow> i < length p \<Longrightarrow> rep_of p i < length p \<and> p ! rep_of p i = rep_of p i"
  using forest_reaches reaches_bounds by blast

lemma rep_of_rep: "forest p \<Longrightarrow> i < length p \<Longrightarrow> rep_of p (rep_of p i) = rep_of p i"
  using rep_of_root[of p i] by (intro rep_of_eq[of _ _ 0] reaches_root) simp_all




lemma for_each_invariant:
  assumes "Inv [] s"
    and "\<And>pre x post s. xs = pre @ x # post \<Longrightarrow> Inv pre s \<Longrightarrow>
            \<exists>s'. body s x = Some (Inr s') \<and> Inv (pre @ [x]) s'"
  shows "\<exists>s'. for_each xs body s = Some (Inr s') \<and> Inv xs s'"
proof -
  have "\<exists>s'. for_each ys body s = Some (Inr s') \<and> Inv (pre @ ys) s'"
    if "xs = pre @ ys" "Inv pre s" for pre ys s
    using that
  proof (induction ys arbitrary: pre s)
    case Nil
    then show ?case by (simp add: ret_def)
  next
    case (Cons y ys)
    obtain s1 where s1: "body s y = Some (Inr s1)" "Inv (pre @ [y]) s1"
      using assms(2)[OF Cons.prems(1) Cons.prems(2)] by blast
    have "xs = (pre @ [y]) @ ys" using Cons.prems(1) by simp
    from Cons.IH[OF this s1(2)] show ?case using s1(1) by (simp add: bind_res_Some)
  qed
  from this[of "[]" xs s] assms(1) show ?thesis by simp
qed

section \<open>Properties of cluster_points_haversine\<close>



















lemma great_circle_examples:
  "great_circle 0 0 0 180 = 6371000 * pi"
  "great_circle 0 180 0 0 = 6371000 * pi"
  "great_circle 0 0 0 0 = 0"
  by (simp_all add: great_circle_def haversine_a_def radians_def sin_minus_pi power2_eq_square)

lemma far_apart: "\<not> (6371000 * pi \<le> (20::real))"
  using pi_ge_two by simp



section \<open>Properties of main: the required columns\<close>

lemma main_missing_columns:
  assumes "\<not> set required_cols \<subseteq> set (columns df)"
  shows "\<exists>missing. main pf radius_m signature_fields df =
           Some (Inl (SystemExit ''Missing required columns in input CSV: '' missing)) \<and>
         set missing = set required_cols - set (columns df)"
proof -
  have "filter (\<lambda>c. c \<notin> set (columns df)) required_cols \<noteq> []"
    using assms by (auto simp: filter_empty_conv)
  then show ?thesis
    by (intro exI[of _ "filter (\<lambda>c. c \<notin> set (columns df)) required_cols"])
       (auto simp: main_def raise_def)
qed

lemma main_missing_columns_same_for_all_rows:
  "\<not> set required_cols \<subseteq> set cols \<Longrightarrow>
   main pf radius_m signature_fields (Table cols rows) = main pf radius_m signature_fields (Table cols [])"
  by (auto simp: main_def Let_def filter_empty_conv)

lemma main_no_meters:
  assumes "set required_cols \<subseteq> set (columns df)" "numeric_rows pf (table_rows df) = []"
  shows "main pf radius_m signature_fields df = Some (Inl (KeyError ''schedule_hash''))"
proof -
  have "filter (\<lambda>c. c \<notin> set (columns df)) required_cols = []"
    using assms(1) by (auto simp: filter_empty_conv)
  then show ?thesis
    using assms(2) by (simp add: main_def groupby_def firsts_def ret_def bind_res_Some raise_def)
qed

text \<open>
  Claim C9. With the three required columns and no row (or no row whose coordinates are
  numbers), \<^verbatim>\<open>main\<close> ends in an uncaught \<^verbatim>\<open>KeyError\<close> and writes nothing, although no
  required column is absent. When a required column is absent \<^verbatim>\<open>main\<close> does exit with the
  message and the missing names, whatever the rows are (\<open>main_missing_columns\<close>).
\<close>

theorem main_empty_table_key_error:
  "main pf radius_m signature_fields (Table [''post_id'', ''longitude'', ''latitude''] []) =
     Some (Inl (KeyError ''schedule_hash''))"
  by (rule main_no_meters) (simp_all add: required_cols_def numeric_rows_def)

section \<open>Properties of main: the two tables\<close>

lemma mode_total: "mode vs = Inr (mode_text vs)"
proof (cases "filter nonblank vs = []")
  case True
  then show ?thesis by (simp add: mode_def mode_text_def)
next
  case False
  then have "firsts (filter nonblank vs) \<noteq> []" using set_firsts[of "filter nonblank vs"] by auto
  then have "Counter (filter nonblank vs) \<noteq> []" by (simp add: Counter_eq)
  then obtain x xs where "Counter (filter nonblank vs) = x # xs" by (cases "Counter (filter nonblank vs)") auto
  then show ?thesis using False by (simp add: mode_def mode_text_def)
qed

lemma read_nat_snoc: "read_nat (s @ [c]) = 10 * read_nat s + digit_val c"
  by (simp add: read_nat_def)

lemma digit_val_char: "d < 10 \<Longrightarrow> digit_val (char_of (48 + d)) = d"
  by (simp add: digit_val_def)

lemma read_nat_show_nat: "read_nat (show_nat n) = n"
proof (induction n rule: show_nat.induct)
  case (1 n)
  show ?case
  proof (cases "n < 10")
    case True
    then show ?thesis by (subst show_nat.simps) (simp add: read_nat_def digit_val_char)
  next
    case False
    then have "read_nat (show_nat n) = 10 * read_nat (show_nat (n div 10)) + digit_val (char_of (48 + n mod 10))"
      by (subst show_nat.simps) (simp add: read_nat_snoc)
    then show ?thesis using 1 False by (simp add: digit_val_char)
  qed
qed

lemma read_nat_zeros: "read_nat (replicate k CHR ''0'' @ s) = read_nat s"
proof -
  have "foldl (\<lambda>a c. 10 * a + digit_val c) 0 (replicate k CHR ''0'') = 0"
    by (induction k) (simp_all add: digit_val_def)
  then show ?thesis by (simp add: read_nat_def)
qed

lemma cid_of_inj: "cid_of j = cid_of k \<Longrightarrow> j = k"
proof -
  assume "cid_of j = cid_of k"
  then have "read_nat (fmt_0d 5 (int j)) = read_nat (fmt_0d 5 (int k))" by (simp add: cid_of_def)
  then show ?thesis by (simp add: fmt_0d_def Let_def read_nat_zeros read_nat_show_nat)
qed

lemma bind_res_success:
  "bind_res m f = Some (Inr y) \<Longrightarrow> \<exists>x. m = Some (Inr x) \<and> f x = Some (Inr y)"
  by (auto simp: bind_res_def split: option.splits sum.splits)

lemma for_each_success:
  assumes "for_each xs body s = Some (Inr s')"
    and "Inv [] s"
    and "\<And>pre x post t t'. xs = pre @ x # post \<Longrightarrow> Inv pre t \<Longrightarrow> body t x = Some (Inr t') \<Longrightarrow>
            Inv (pre @ [x]) t'"
  shows "Inv xs s'"
proof -
  have "Inv (pre @ ys) s'"
    if "xs = pre @ ys" "Inv pre t" "for_each ys body t = Some (Inr s')" for pre ys t
    using that
  proof (induction ys arbitrary: pre t)
    case Nil
    then show ?case by (simp add: ret_def)
  next
    case (Cons y ys)
    obtain t1 where t1: "body t y = Some (Inr t1)" "for_each ys body t1 = Some (Inr s')"
      using Cons.prems(3) bind_res_success[of "body t y" "for_each ys body" s'] by auto
    have i1: "Inv (pre @ [y]) t1" using assms(3)[OF Cons.prems(1) Cons.prems(2) t1(1)] .
    have "xs = (pre @ [y]) @ ys" using Cons.prems(1) by simp
    from Cons.IH[OF this i1 t1(2)] show ?case by simp
  qed
  from this[of "[]" xs s] assms(1,2) show ?thesis by simp
qed

lemma mset_concat_filter_keys:
  "distinct ks \<Longrightarrow>
   mset (concat (map (\<lambda>k. filter (\<lambda>x. key x = k) xs) ks)) = mset (filter (\<lambda>x. key x \<in> set ks) xs)"
proof (induction ks)
  case Nil
  then show ?case by simp
next
  case (Cons k ks)
  have "mset (filter (\<lambda>x. key x = k) xs) + mset (filter (\<lambda>x. key x \<in> set ks) xs) =
        mset (filter (\<lambda>x. key x \<in> set (k # ks)) xs)"
    using Cons.prems by (induction xs) auto
  then show ?case using Cons by simp
qed

lemma groupby_partition: "mset (concat (map snd (groupby key xs))) = mset xs"
proof -
  have "mset (concat (map snd (groupby key xs))) =
        mset (filter (\<lambda>x. key x \<in> set (firsts (map key xs))) xs)"
    using mset_concat_filter_keys[OF distinct_firsts, of key xs "map key xs"]
    by (simp add: groupby_def comp_def)
  then show ?thesis by (simp add: set_firsts)
qed

lemma groupby_keys: "map fst (groupby key xs) = firsts (map key xs)"
  by (simp add: groupby_def comp_def)

lemma groupby_group:
  "(k, g) \<in> set (groupby key xs) \<Longrightarrow> g = filter (\<lambda>x. key x = k) xs \<and> g \<noteq> [] \<and> k \<in> key ` set xs"
  by (auto simp: groupby_def set_firsts filter_empty_conv)

lemma groupby_sorted_partition: "mset (concat (map snd (groupby_sorted key xs))) = mset xs"
proof -
  have "mset (concat (map snd (groupby_sorted key xs))) =
        mset (filter (\<lambda>x. key x \<in> set (sorted_list_of_set (set (map key xs)))) xs)"
    using mset_concat_filter_keys[of "sorted_list_of_set (set (map key xs))" key xs]
    by (simp add: groupby_sorted_def comp_def)
  then show ?thesis by simp
qed

lemma groupby_sorted_group:
  "(k, g) \<in> set (groupby_sorted key xs) \<Longrightarrow> g \<noteq> [] \<and> set g \<subseteq> set xs"
  by (auto simp: groupby_sorted_def filter_empty_conv)

lemma emit_clusters_append:
  "emit_clusters pf gid (A @ B) = emit_clusters pf gid A @ emit_clusters pf (gid + length A) B"
  by (induction A arbitrary: gid) auto

lemma emit_members_append:
  "emit_members gid (A @ B) = emit_members gid A @ emit_members (gid + length A) B"
  by (induction A arbitrary: gid) auto

lemma cluster_step_success:
  assumes "cluster_step pf shash (gid, cs, ms) (lc, sub) = Some (Inr st')"
  shows "sub \<noteq> [] \<and>
         st' = (gid + 1, cs @ [cluster_of pf (gid + 1) shash sub],
                ms @ map (member_of (cid_of (gid + 1)) shash) sub)"
proof -
  define fa where "fa = pf_arith pf"
  define clat where "clat = pf_mean pf (map m_latitude sub)"
  define clon where "clon = pf_mean pf (map m_longitude sub)"
  define k where "k = (\<lambda>max_r.
       bind_res (nth_res (map m_schedule_json sub) 0) (\<lambda>sjson.
         ret (gid + 1,
              cs @ [ClusterRecord (cid_of (gid + 1)) shash (length sub)
                      (py_join ''|'' (sort (map m_post_id sub)))
                      clat clon (fl_round2 fa max_r) (mode_text (map m_street_name sub))
                      (mode_text (map m_cap_color sub))
                      (py_join ''|''
                         (sorted_list_of_set {x \<in> set (map m_blockface_id sub). py_strip x \<noteq> []}))
                      sjson],
              ms @ map (member_of (cid_of (gid + 1)) shash) sub)))"
  have "cluster_step pf shash (gid, cs, ms) (lc, sub) =
          bind_res (for_each sub (max_radius_step fa clat clon) (fl_of_int fa 0)) k"
    by (simp add: cluster_step_def Let_def bind_res_Some mode_total cid_of_def fa_def clat_def
          clon_def k_def)
  then obtain max_r where m: "for_each sub (max_radius_step fa clat clon) (fl_of_int fa 0) = Some (Inr max_r)"
      and r: "k max_r = Some (Inr st')"
    using assms bind_res_success[of "for_each sub (max_radius_step fa clat clon) (fl_of_int fa 0)" k st']
    by auto
  have mr: "max_radius fa clat clon sub = max_r" by (simp add: max_radius_def m)
  have ne: "sub \<noteq> []"
  proof
    assume "sub = []"
    then show False using r by (simp add: k_def nth_res_def raise_def bind_res_def)
  qed
  then have "nth_res (map m_schedule_json sub) 0 = Some (Inr (m_schedule_json (hd sub)))"
    by (cases sub) (simp_all add: nth_res_def ret_def)
  then have "st' = (gid + 1, cs @ [cluster_of pf (gid + 1) shash sub],
                   ms @ map (member_of (cid_of (gid + 1)) shash) sub)"
    using r by (simp add: k_def bind_res_Some ret_def cluster_of_def mr fa_def[symmetric]
                  clat_def[symmetric] clon_def[symmetric])
  then show ?thesis using ne by simp
qed

lemma cluster_loop_success:
  assumes "for_each lsubs (cluster_step pf shash) (gid, cs, ms) = Some (Inr st')"
  shows "(\<forall>ls\<in>set lsubs. snd ls \<noteq> []) \<and>
         st' = (gid + length lsubs,
                cs @ emit_clusters pf gid (map (\<lambda>ls. (shash, snd ls)) lsubs),
                ms @ emit_members gid (map (\<lambda>ls. (shash, snd ls)) lsubs))"
  using assms
proof (induction lsubs arbitrary: gid cs ms)
  case Nil
  then show ?case by (simp add: ret_def)
next
  case (Cons ls lsubs)
  obtain lc sub where ls: "ls = (lc, sub)" by (cases ls)
  obtain st1 where s1: "cluster_step pf shash (gid, cs, ms) (lc, sub) = Some (Inr st1)"
      and s2: "for_each lsubs (cluster_step pf shash) st1 = Some (Inr st')"
    using Cons.prems bind_res_success[of "cluster_step pf shash (gid, cs, ms) ls"
        "for_each lsubs (cluster_step pf shash)" st'] ls
    by auto
  from cluster_step_success[OF s1]
  have ne: "sub \<noteq> []" and st1: "st1 = (gid + 1, cs @ [cluster_of pf (gid + 1) shash sub],
                ms @ map (member_of (cid_of (gid + 1)) shash) sub)"
    by simp_all
  from Cons.IH[OF s2[unfolded st1]] show ?case using ne by (simp add: ls)
qed

lemma group_step_success:
  assumes "group_step pf radius_m (gid, cs, ms) (shash, g) = Some (Inr st')"
  shows "\<exists>subs. st' = (gid + length subs, cs @ emit_clusters pf gid subs, ms @ emit_members gid subs) \<and>
           list_all (\<lambda>hs. fst hs = shash \<and> snd hs \<noteq> []) subs \<and>
           mset (concat (map snd subs)) = mset g"
proof -
  obtain labels where lab:
      "cluster_points_haversine (pf_arith pf) (pf_dbscan pf) (map m_latitude g) (map m_longitude g) radius_m =
         Some (Inr labels)"
      and rest: "(if length labels \<noteq> length g then raise ValueError
             else for_each (map (\<lambda>(lc, ms). (lc, map fst ms)) (groupby_sorted snd (zip g labels)))
                    (cluster_step pf shash) (gid, cs, ms)) = Some (Inr st')"
    using assms bind_res_success[of "cluster_points_haversine (pf_arith pf) (pf_dbscan pf) (map m_latitude g) (map m_longitude g) radius_m" _ st']
    by (auto simp: group_step_def)
  have len: "length labels = length g" using rest by (auto simp: raise_def split: if_splits)
  define lsubs where "lsubs = map (\<lambda>(lc, ms). (lc, map fst ms)) (groupby_sorted snd (zip g labels))"
  have loop: "for_each lsubs (cluster_step pf shash) (gid, cs, ms) = Some (Inr st')"
    using rest len by (simp add: lsubs_def)
  note ls = cluster_loop_success[OF loop]
  have ne: "\<forall>ls\<in>set lsubs. snd ls \<noteq> []" using ls by simp
  define subs where "subs = map (\<lambda>ls. (shash, snd ls)) lsubs"
  have st: "st' = (gid + length subs, cs @ emit_clusters pf gid subs, ms @ emit_members gid subs)"
    using ls by (simp add: subs_def)
  have all: "list_all (\<lambda>hs. fst hs = shash \<and> snd hs \<noteq> []) subs"
    using ne by (simp add: subs_def list_all_iff)
  have "concat (map snd subs) = map fst (concat (map snd (groupby_sorted snd (zip g labels))))"
    by (simp add: subs_def lsubs_def comp_def map_concat case_prod_unfold)
  then have "mset (concat (map snd subs)) = image_mset fst (mset (concat (map snd (groupby_sorted snd (zip g labels)))))"
    by simp
  also have "\<dots> = mset (map fst (zip g labels))"
    by (simp add: groupby_sorted_partition)
  also have "\<dots> = mset g" using len by simp
  finally show ?thesis using st all by (intro exI[of _ subs]) simp
qed

lemma list_all_mset_subset:
  "mset xs = mset ys \<Longrightarrow> list_all P ys \<Longrightarrow> list_all P xs"
  using mset_eq_setD[of xs ys] by (simp add: list_all_iff)

lemma group_loop_success:
  assumes "for_each (groupby m_schedule_hash meters) (group_step pf radius_m) (0, [], []) = Some (Inr (gid, cs, ms))"
  shows "\<exists>subs. cs = emit_clusters pf 0 subs \<and> ms = emit_members 0 subs \<and> clustering meters subs"
proof -
  define Inv where "Inv = (\<lambda>(pre :: (string \<times> 'a meter list) list) (st :: 'a outputs).
     \<exists>subs. st = (length subs, emit_clusters pf 0 subs, emit_members 0 subs) \<and>
       clustering (concat (map snd pre)) subs)"
  have "Inv (groupby m_schedule_hash meters) (gid, cs, ms)"
  proof (rule for_each_success[OF assms, of Inv])
    show "Inv [] (0, [], [])" by (simp add: Inv_def clustering_def)
  next
    fix pre x post t t'
    assume xs: "groupby m_schedule_hash meters = pre @ x # post" and inv: "Inv pre t"
      and body: "group_step pf radius_m t x = Some (Inr t')"
    obtain shash g where x: "x = (shash, g)" by (cases x)
    obtain subs where t: "t = (length subs, emit_clusters pf 0 subs, emit_members 0 subs)"
      and cl: "clustering (concat (map snd pre)) subs"
      using inv by (auto simp: Inv_def)
    have "(shash, g) \<in> set (groupby m_schedule_hash meters)" using xs x by simp
    then have g: "g = filter (\<lambda>m. m_schedule_hash m = shash) meters"
      using groupby_group[of shash g m_schedule_hash meters] by simp
    obtain new where t': "t' = (length subs + length new, emit_clusters pf 0 subs @ emit_clusters pf (length subs) new,
          emit_members 0 subs @ emit_members (length subs) new)"
      and all: "list_all (\<lambda>hs. fst hs = shash \<and> snd hs \<noteq> []) new"
      and ms: "mset (concat (map snd new)) = mset g"
      using group_step_success[of pf radius_m "length subs" "emit_clusters pf 0 subs" "emit_members 0 subs" shash g t']
        body t x by auto
    have hs: "list_all (\<lambda>m. m_schedule_hash m = shash) (concat (map snd new))"
      by (rule list_all_mset_subset[OF ms]) (simp add: g list_all_iff)
    have "list_all (\<lambda>hs. snd hs \<noteq> [] \<and> list_all (\<lambda>m. m_schedule_hash m = fst hs) (snd hs)) new"
      using all hs by (auto simp: list_all_iff)
    then have "clustering (concat (map snd (pre @ [x]))) (subs @ new)"
      using cl ms by (simp add: clustering_def x)
    then show "Inv (pre @ [x]) t'"
      unfolding Inv_def using t'
      by (intro case_prodI2 exI[of _ "subs @ new"]) (simp add: emit_clusters_append emit_members_append)
  qed
  then obtain subs where "cs = emit_clusters pf 0 subs" "ms = emit_members 0 subs"
    "clustering (concat (map snd (groupby m_schedule_hash meters))) subs"
    by (auto simp: Inv_def)
  then show ?thesis
    using groupby_partition[of m_schedule_hash meters] by (auto simp: clustering_def)
qed

lemma column_mode_total: "\<exists>v. column_mode cols c g = Some (Inr v)"
  by (simp add: column_mode_def mode_total ret_def)

lemma build_schedule_signature_total:
  "\<exists>h es. build_schedule_signature rows fields = Inr (h, es)"
  using canonical_entries_set[of rows fields] by (auto simp: build_schedule_signature_def)

lemma make_meter_total:
  "\<exists>m. make_meter pf cols signature_fields pg = Some (Inr m) \<and> meter_for pf signature_fields pg m"
proof -
  obtain pid g where pg: "pg = (pid, g)" by (cases pg)
  obtain h es where b: "build_schedule_signature (map nr_row g) signature_fields = Inr (h, es)"
    using build_schedule_signature_total by blast
  obtain v1 where v1: "column_mode cols ''street_name'' g = Some (Inr v1)" using column_mode_total by blast
  obtain v2 where v2: "column_mode cols ''street_num'' g = Some (Inr v2)" using column_mode_total by blast
  obtain v3 where v3: "column_mode cols ''blockface_id'' g = Some (Inr v3)" using column_mode_total by blast
  obtain v4 where v4: "column_mode cols ''cap_color'' g = Some (Inr v4)" using column_mode_total by blast
  show ?thesis
    by (simp add: make_meter_def pg b v1 v2 v3 v4 bind_res_Some ret_def meter_for_def)
qed

lemma meter_loop_total:
  "\<exists>meters. for_each groups (meter_step pf cols signature_fields) [] = Some (Inr meters) \<and>
             list_all2 (meter_for pf signature_fields) groups meters"
proof (rule for_each_invariant[of "\<lambda>pre meters. list_all2 (meter_for pf signature_fields) pre meters"])
  show "list_all2 (meter_for pf signature_fields) [] []" by simp
next
  fix pre x post s
  assume "groups = pre @ x # post" and inv: "list_all2 (meter_for pf signature_fields) pre s"
  obtain m where m: "make_meter pf cols signature_fields x = Some (Inr m)" "meter_for pf signature_fields x m"
    using make_meter_total by blast
  have "meter_step pf cols signature_fields s x = Some (Inr (s @ [m]))"
    by (simp add: meter_step_def m(1) bind_res_Some ret_def)
  moreover have "list_all2 (meter_for pf signature_fields) (pre @ [x]) (s @ [m])"
    using inv m(2) by (simp add: list_all2_appendI)
  ultimately show "\<exists>s'. meter_step pf cols signature_fields s x = Some (Inr s') \<and>
                        list_all2 (meter_for pf signature_fields) (pre @ [x]) s'"
    by blast
qed

lemma main_tables:
  assumes "main pf radius_m signature_fields df = Some (Inr (cluster_records, member_records))"
  shows "\<exists>meters subs.
           list_all2 (meter_for pf signature_fields) (groupby nr_post_id (numeric_rows pf (table_rows df))) meters \<and>
           clustering meters subs \<and>
           cluster_records = emit_clusters pf 0 subs \<and> member_records = emit_members 0 subs"
proof -
  obtain meters where m: "for_each (groupby nr_post_id (numeric_rows pf (table_rows df)))
       (meter_step pf (columns df) signature_fields) [] = Some (Inr meters)"
     and rel: "list_all2 (meter_for pf signature_fields) (groupby nr_post_id (numeric_rows pf (table_rows df))) meters"
    using meter_loop_total by blast
  have "filter (\<lambda>c. c \<notin> set (columns df)) required_cols = []"
    using assms by (auto simp: main_def Let_def raise_def split: if_splits)
  then have r: "(if meters = [] then raise (KeyError ''schedule_hash'')
           else
             bind_res (for_each (groupby m_schedule_hash meters) (group_step pf radius_m) (0, [], []))
               (\<lambda>(global_cluster_id, cluster_records, member_records).
                  ret (cluster_records, member_records))) = Some (Inr (cluster_records, member_records))"
    using assms by (simp add: main_def m bind_res_Some)
  then have ne: "meters \<noteq> []" by (auto simp: raise_def)
  have "\<exists>st. for_each (groupby m_schedule_hash meters) (group_step pf radius_m) (0, [], []) = Some (Inr st) \<and>
         (case st of (global_cluster_id, cluster_records, member_records) \<Rightarrow>
                  ret (cluster_records, member_records)) = Some (Inr (cluster_records, member_records))"
    by (rule bind_res_success) (use r ne in simp)
  then obtain st where st: "for_each (groupby m_schedule_hash meters) (group_step pf radius_m) (0, [], []) = Some (Inr st)"
     and e: "(case st of (global_cluster_id, cluster_records, member_records) \<Rightarrow>
                  ret (cluster_records, member_records)) = Some (Inr (cluster_records, member_records))"
    by blast
  obtain gid where "st = (gid, cluster_records, member_records)"
    using e by (cases st) (auto simp: ret_def)
  then show ?thesis using group_loop_success[of meters pf radius_m gid cluster_records member_records] st rel by blast
qed

lemma emit_members_post_ids:
  "map mr_post_id (emit_members gid subs) = map m_post_id (concat (map snd subs))"
  by (induction gid subs rule: emit_members.induct) (simp_all add: member_of_def comp_def)

lemma emit_members_length: "length (emit_members gid subs) = length (concat (map snd subs))"
  using arg_cong[OF emit_members_post_ids[of gid subs], of length] by simp

lemma emit_clusters_counts:
  "map cr_count_meters (emit_clusters pf gid subs) = map (\<lambda>hs. length (snd hs)) subs"
  by (induction pf gid subs rule: emit_clusters.induct) (simp_all add: cluster_of_def)

lemma emit_clusters_count_sum:
  "sum_list (map cr_count_meters (emit_clusters pf gid subs)) = length (concat (map snd subs))"
  by (simp add: emit_clusters_counts length_concat comp_def)

lemma emit_members_later:
  "m \<in> set (emit_members gid subs) \<Longrightarrow> \<exists>k>gid. mr_cluster_id m = cid_of k"
proof (induction gid subs rule: emit_members.induct)
  case (1 gid)
  then show ?case by simp
next
  case (2 gid shash sub subs)
  then show ?case
  proof (cases "m \<in> set (emit_members (gid + 1) subs)")
    case True
    then obtain k where "k > gid + 1" "mr_cluster_id m = cid_of k" using 2 by blast
    then show ?thesis by (intro exI[of _ k]) simp
  next
    case False
    then have "mr_cluster_id m = cid_of (gid + 1)" using 2(2) by (auto simp: member_of_def)
    then show ?thesis by (intro exI[of _ "gid + 1"]) simp
  qed
qed

lemma emit_clusters_later:
  "c \<in> set (emit_clusters pf gid subs) \<Longrightarrow> \<exists>k>gid. cr_cluster_id c = cid_of k"
proof (induction pf gid subs rule: emit_clusters.induct)
  case (1 pf gid)
  then show ?case by simp
next
  case (2 pf gid shash sub subs)
  then show ?case
  proof (cases "c \<in> set (emit_clusters pf (gid + 1) subs)")
    case True
    then obtain k where "k > gid + 1" "cr_cluster_id c = cid_of k" using 2 by blast
    then show ?thesis by (intro exI[of _ k]) simp
  next
    case False
    then have "cr_cluster_id c = cid_of (gid + 1)" using 2(2) by (auto simp: cluster_of_def)
    then show ?thesis by (intro exI[of _ "gid + 1"]) simp
  qed
qed

lemma emit_clusters_ids_distinct: "distinct (map cr_cluster_id (emit_clusters pf gid subs))"
proof (induction pf gid subs rule: emit_clusters.induct)
  case (1 pf gid)
  then show ?case by simp
next
  case (2 pf gid shash sub subs)
  have "cid_of (gid + 1) \<noteq> cr_cluster_id c" if c: "c \<in> set (emit_clusters pf (gid + 1) subs)" for c
  proof -
    obtain j where "j > gid + 1" "cr_cluster_id c = cid_of j" using emit_clusters_later[OF c] by blast
    then show ?thesis using cid_of_inj[of "gid + 1" j] by auto
  qed
  then show ?case using 2 by (auto simp: cluster_of_def)
qed

text \<open>The membership rows that carry the identifier of a cluster row are the rows of its meters.\<close>

lemma filter_members_other:
  assumes "cid \<noteq> cid'"
  shows "filter (\<lambda>m. mr_cluster_id m = cid) (map (member_of cid' shash) sub) = []"
  using assms by (induction sub) (simp_all add: member_of_def)

lemma filter_members_same:
  "filter (\<lambda>m. mr_cluster_id m = cid) (map (member_of cid shash) sub) = map (member_of cid shash) sub"
  by (induction sub) (simp_all add: member_of_def)

lemma filter_members_later:
  assumes "k \<le> gid"
  shows "filter (\<lambda>m. mr_cluster_id m = cid_of k) (emit_members gid subs) = []"
proof -
  have "mr_cluster_id m \<noteq> cid_of k" if m: "m \<in> set (emit_members gid subs)" for m
  proof -
    obtain j where j: "j > gid" "mr_cluster_id m = cid_of j" using emit_members_later[OF m] by blast
    have "j \<noteq> k" using j(1) assms by simp
    then show ?thesis using cid_of_inj[of j k] j(2) by auto
  qed
  then show ?thesis by (simp add: filter_empty_conv)
qed

lemma emit_cluster_members:
  assumes "c \<in> set (emit_clusters pf gid subs)"
  shows "\<exists>k shash sub. (shash, sub) \<in> set subs \<and> c = cluster_of pf k shash sub \<and>
      filter (\<lambda>m. mr_cluster_id m = cr_cluster_id c) (emit_members gid subs) =
        map (member_of (cid_of k) shash) sub"
  using assms
proof (induction pf gid subs rule: emit_clusters.induct)
  case (1 pf gid)
  then show ?case by simp
next
  case (2 pf gid shash sub subs)
  show ?case
  proof (cases "c \<in> set (emit_clusters pf (gid + 1) subs)")
    case True
    from "2.IH"[OF True] obtain k h s where ks: "(h, s) \<in> set subs" "c = cluster_of pf k h s"
       "filter (\<lambda>m. mr_cluster_id m = cr_cluster_id c) (emit_members (gid + 1) subs) =
          map (member_of (cid_of k) h) s"
      by blast
    obtain j where j: "j > gid + 1" "cr_cluster_id c = cid_of j"
      using emit_clusters_later[OF True] by blast
    have "cid_of j \<noteq> cid_of (gid + 1)" using j(1) cid_of_inj[of j "gid + 1"] by auto
    then have f: "filter (\<lambda>m. mr_cluster_id m = cr_cluster_id c)
                    (map (member_of (cid_of (gid + 1)) shash) sub) = []"
      unfolding j(2) by (rule filter_members_other)
    have "filter (\<lambda>m. mr_cluster_id m = cr_cluster_id c) (emit_members gid ((shash, sub) # subs)) =
            map (member_of (cid_of k) h) s"
      by (simp only: emit_members.simps filter_append f ks(3) append_Nil)
    moreover have "(h, s) \<in> set ((shash, sub) # subs)" using ks(1) by simp
    ultimately show ?thesis using ks(2) by blast
  next
    case False
    then have c: "c = cluster_of pf (gid + 1) shash sub" using "2.prems" by simp
    have id: "cr_cluster_id c = cid_of (gid + 1)" by (simp add: c cluster_of_def)
    have r: "filter (\<lambda>m. mr_cluster_id m = cr_cluster_id c) (emit_members (gid + 1) subs) = []"
      unfolding id by (rule filter_members_later) simp
    have "filter (\<lambda>m. mr_cluster_id m = cr_cluster_id c) (emit_members gid ((shash, sub) # subs)) =
            map (member_of (cid_of (gid + 1)) shash) sub"
      unfolding id by (simp only: emit_members.simps filter_append filter_members_same r[unfolded id] append_Nil2)
    moreover have "(shash, sub) \<in> set ((shash, sub) # subs)" by simp
    ultimately show ?thesis using c by blast
  qed
qed

text \<open>Every membership row is the row of a meter of a cluster, and that cluster has a row.\<close>

lemma emit_member_cluster:
  assumes "r \<in> set (emit_members gid subs)"
  shows "\<exists>k shash sub m. (shash, sub) \<in> set subs \<and> m \<in> set sub \<and>
           r = member_of (cid_of k) shash m \<and>
           cluster_of pf k shash sub \<in> set (emit_clusters pf gid subs)"
  using assms
proof (induction gid subs rule: emit_members.induct)
  case (1 gid)
  then show ?case by simp
next
  case (2 gid shash sub subs)
  show ?case
  proof (cases "r \<in> set (emit_members (gid + 1) subs)")
    case True
    from "2.IH"[OF True] obtain k h s m where a: "(h, s) \<in> set subs" "m \<in> set s"
       "r = member_of (cid_of k) h m" "cluster_of pf k h s \<in> set (emit_clusters pf (gid + 1) subs)"
      by blast
    have "(h, s) \<in> set ((shash, sub) # subs)" using a(1) by simp
    moreover have "cluster_of pf k h s \<in> set (emit_clusters pf gid ((shash, sub) # subs))"
      using a(4) by simp
    ultimately show ?thesis using a(2,3) by blast
  next
    case False
    then have "r \<in> set (map (member_of (cid_of (gid + 1)) shash) sub)" using "2.prems" by simp
    then obtain m where m: "m \<in> set sub" "r = member_of (cid_of (gid + 1)) shash m" by auto
    have "(shash, sub) \<in> set ((shash, sub) # subs)" by simp
    moreover have "cluster_of pf (gid + 1) shash sub \<in> set (emit_clusters pf gid ((shash, sub) # subs))"
      by simp
    ultimately show ?thesis using m by blast
  qed
qed

lemma count_list_distinct: "distinct xs \<Longrightarrow> count_list xs x = (if x \<in> set xs then 1 else 0)"
  by (induction xs) auto

lemma count_list_mset: "mset xs = mset ys \<Longrightarrow> count_list xs x = count_list ys x"
  by (metis count_mset)

lemma meter_loop_post_ids:
  "list_all2 (meter_for pf signature_fields) groups meters \<Longrightarrow> map m_post_id meters = map fst groups"
  by (induction groups meters rule: list_all2_induct) (simp_all add: meter_for_def)

lemma member_post_ids:
  assumes "list_all2 (meter_for pf signature_fields) (groupby nr_post_id nrows) meters"
    and "clustering meters subs"
  shows "count_list (map mr_post_id (emit_members gid subs)) pid =
           (if pid \<in> nr_post_id ` set nrows then 1 else 0)"
proof -
  have ids: "map m_post_id meters = firsts (map nr_post_id nrows)"
    using meter_loop_post_ids[OF assms(1)] by (simp add: groupby_keys)
  have "mset (map m_post_id (concat (map snd subs))) = mset (map m_post_id meters)"
    using assms(2) by (simp add: clustering_def)
  then have "count_list (map m_post_id (concat (map snd subs))) pid = count_list (map m_post_id meters) pid"
    by (rule count_list_mset)
  also have "\<dots> = (if pid \<in> set (firsts (map nr_post_id nrows)) then 1 else 0)"
    unfolding ids by (rule count_list_distinct) (rule distinct_firsts)
  finally show ?thesis by (simp add: emit_members_post_ids set_firsts)
qed

lemma member_signature:
  assumes "list_all2 (meter_for pf signature_fields) (groupby nr_post_id nrows) meters"
    and "clustering meters subs"
    and "r \<in> set (emit_members gid subs)"
  shows "\<exists>es. build_schedule_signature
                (map nr_row (filter (\<lambda>x. nr_post_id x = mr_post_id r) nrows)) signature_fields =
              Inr (mr_schedule_hash r, es)"
proof -
  obtain k shash sub m where a: "(shash, sub) \<in> set subs" "m \<in> set sub"
      "r = member_of (cid_of k) shash m"
    using emit_member_cluster[OF assms(3), of pf] by blast
  have h: "m_schedule_hash m = shash"
    using assms(2) a(1,2) by (auto simp: clustering_def list_all_iff)
  have "m \<in> set (concat (map snd subs))" using a(1,2) by (auto intro: bexI[of _ "(shash, sub)"])
  moreover have "set (concat (map snd subs)) = set meters"
    using assms(2) by (intro mset_eq_setD) (simp add: clustering_def)
  ultimately have "m \<in> set meters" by (simp only:)
  then obtain i where i: "i < length meters" "meters ! i = m" by (auto simp: in_set_conv_nth)
  define pg where "pg = groupby nr_post_id nrows ! i"
  have len: "length (groupby nr_post_id nrows) = length meters"
    using assms(1) by (rule list_all2_lengthD)
  have mf: "meter_for pf signature_fields pg m"
    using list_all2_nthD2[OF assms(1) i(1)] i(2) by (simp add: pg_def)
  have "pg \<in> set (groupby nr_post_id nrows)" using i(1) len by (simp add: pg_def)
  then have g: "snd pg = filter (\<lambda>x. nr_post_id x = fst pg) nrows"
    using groupby_group[of "fst pg" "snd pg" nr_post_id nrows] by simp
  have pid: "mr_post_id r = fst pg" using mf by (simp add: a(3) member_of_def meter_for_def)
  have hr: "mr_schedule_hash r = m_schedule_hash m" by (simp add: a(3) member_of_def h)
  obtain h' es where b: "build_schedule_signature (map nr_row (snd pg)) signature_fields = Inr (h', es)"
    using build_schedule_signature_total by blast
  then have "m_schedule_hash m = h'" using mf by (simp add: meter_for_def)
  then show ?thesis using b g pid hr by (intro exI[of _ es]) simp
qed

lemma cluster_of_member_rows:
  assumes "clustering meters subs" "c \<in> set (emit_clusters pf gid subs)"
  shows "\<exists>k shash sub. sub \<noteq> [] \<and> c = cluster_of pf k shash sub \<and>
           filter (\<lambda>m. mr_cluster_id m = cr_cluster_id c) (emit_members gid subs) =
             map (member_of (cid_of k) shash) sub"
proof -
  obtain k shash sub where a: "(shash, sub) \<in> set subs" "c = cluster_of pf k shash sub"
      "filter (\<lambda>m. mr_cluster_id m = cr_cluster_id c) (emit_members gid subs) =
         map (member_of (cid_of k) shash) sub"
    using emit_cluster_members[OF assms(2)] by blast
  have "sub \<noteq> []" using assms(1) a(1) by (auto simp: clustering_def list_all_iff)
  then show ?thesis using a(2,3) by blast
qed

text \<open>
  Claim C6. In the two tables that \<^verbatim>\<open>main\<close> writes, the \<^verbatim>\<open>schedule_hash\<close> of a membership
  row is the hash that \<^verbatim>\<open>build_schedule_signature\<close> returns for the rows of its
  \<^verbatim>\<open>post_id\<close> that survive the coordinate filter, and two membership rows with the same
  \<^verbatim>\<open>cluster_id\<close> have the same \<^verbatim>\<open>schedule_hash\<close>: meters whose signature hashes differ
  are in different clusters, whatever their coordinates, the radius and the clustering
  strategy are.
\<close>

theorem main_signature_separation:
  assumes "main pf radius_m signature_fields df = Some (Inr (cluster_records, member_records))"
  shows "(\<forall>m\<in>set member_records.
            \<exists>es. build_schedule_signature
                   (map nr_row (filter (\<lambda>x. nr_post_id x = mr_post_id m)
                                  (numeric_rows pf (table_rows df)))) signature_fields =
                 Inr (mr_schedule_hash m, es)) \<and>
         (\<forall>m1\<in>set member_records. \<forall>m2\<in>set member_records.
            mr_cluster_id m1 = mr_cluster_id m2 \<longrightarrow> mr_schedule_hash m1 = mr_schedule_hash m2)"
proof -
  obtain meters subs where t:
      "list_all2 (meter_for pf signature_fields) (groupby nr_post_id (numeric_rows pf (table_rows df))) meters"
      "clustering meters subs"
      "cluster_records = emit_clusters pf 0 subs" "member_records = emit_members 0 subs"
    using main_tables[OF assms] by blast
  have sig: "\<exists>es. build_schedule_signature
                   (map nr_row (filter (\<lambda>x. nr_post_id x = mr_post_id m)
                                  (numeric_rows pf (table_rows df)))) signature_fields =
                 Inr (mr_schedule_hash m, es)"
    if m: "m \<in> set member_records" for m
    using member_signature[OF t(1,2), of m 0] m t(4) by simp
  have same: "mr_schedule_hash m1 = mr_schedule_hash m2"
    if m1: "m1 \<in> set member_records" and m2: "m2 \<in> set member_records"
      and eq: "mr_cluster_id m1 = mr_cluster_id m2" for m1 m2
  proof -
    obtain k1 h1 s1 x1 where a1: "m1 = member_of (cid_of k1) h1 x1"
        "cluster_of pf k1 h1 s1 \<in> set (emit_clusters pf 0 subs)"
      using emit_member_cluster[of m1 0 subs pf] m1 t(4) by blast
    obtain k2 h2 s2 x2 where a2: "m2 = member_of (cid_of k2) h2 x2"
        "cluster_of pf k2 h2 s2 \<in> set (emit_clusters pf 0 subs)"
      using emit_member_cluster[of m2 0 subs pf] m2 t(4) by blast
    have "cr_cluster_id (cluster_of pf k1 h1 s1) = cr_cluster_id (cluster_of pf k2 h2 s2)"
      using eq by (simp add: a1(1) a2(1) member_of_def cluster_of_def)
    then have "cluster_of pf k1 h1 s1 = cluster_of pf k2 h2 s2"
      using emit_clusters_ids_distinct[of pf 0 subs] a1(2) a2(2)
      by (simp add: distinct_map inj_on_def)
    then have "h1 = h2" by (simp add: cluster_of_def)
    then show ?thesis by (simp add: a1(1) a2(1) member_of_def)
  qed
  show ?thesis using sig same by blast
qed

text \<open>
  Claim C7. In the two tables that \<^verbatim>\<open>main\<close> writes, every \<^verbatim>\<open>post_id\<close> that has a row
  with numeric coordinates has exactly one membership row, and no other \<^verbatim>\<open>post_id\<close> has
  one; the numbers \<^verbatim>\<open>count_meters\<close> of the cluster rows add up to the number of
  membership rows; the membership rows and the cluster rows have the same set of
  \<^verbatim>\<open>cluster_id\<close> values, and no two cluster rows have the same; and for each cluster row
  \<^verbatim>\<open>count_meters\<close> is the number of membership rows with its \<^verbatim>\<open>cluster_id\<close>, and
  \<^verbatim>\<open>post_ids\<close> lists their identifiers, sorted.
\<close>

theorem main_tables_consistent:
  assumes "main pf radius_m signature_fields df = Some (Inr (cluster_records, member_records))"
  shows "(\<forall>pid. count_list (map mr_post_id member_records) pid =
                 (if pid \<in> nr_post_id ` set (numeric_rows pf (table_rows df)) then 1 else 0)) \<and>
         sum_list (map cr_count_meters cluster_records) = length member_records \<and>
         set (map mr_cluster_id member_records) = set (map cr_cluster_id cluster_records) \<and>
         distinct (map cr_cluster_id cluster_records) \<and>
         (\<forall>c\<in>set cluster_records.
            cr_count_meters c =
              length (filter (\<lambda>m. mr_cluster_id m = cr_cluster_id c) member_records) \<and>
            cr_post_ids c =
              py_join ''|'' (sort (map mr_post_id
                (filter (\<lambda>m. mr_cluster_id m = cr_cluster_id c) member_records))))"
proof -
  obtain meters subs where t:
      "list_all2 (meter_for pf signature_fields) (groupby nr_post_id (numeric_rows pf (table_rows df))) meters"
      "clustering meters subs"
      "cluster_records = emit_clusters pf 0 subs" "member_records = emit_members 0 subs"
    using main_tables[OF assms] by blast
  have p1: "count_list (map mr_post_id member_records) pid =
              (if pid \<in> nr_post_id ` set (numeric_rows pf (table_rows df)) then 1 else 0)" for pid
    unfolding t(4) by (rule member_post_ids[OF t(1,2)])
  have p2: "sum_list (map cr_count_meters cluster_records) = length member_records"
    by (simp add: t(3,4) emit_clusters_count_sum emit_members_length)
  have p4: "distinct (map cr_cluster_id cluster_records)"
    unfolding t(3) by (rule emit_clusters_ids_distinct)
  have rows: "\<exists>k shash sub. sub \<noteq> [] \<and> c = cluster_of pf k shash sub \<and>
           filter (\<lambda>m. mr_cluster_id m = cr_cluster_id c) member_records =
             map (member_of (cid_of k) shash) sub"
    if c: "c \<in> set cluster_records" for c
    using cluster_of_member_rows[OF t(2), of c pf 0] c t(3,4) by simp
  have p5: "cr_count_meters c =
              length (filter (\<lambda>m. mr_cluster_id m = cr_cluster_id c) member_records) \<and>
            cr_post_ids c =
              py_join ''|'' (sort (map mr_post_id
                (filter (\<lambda>m. mr_cluster_id m = cr_cluster_id c) member_records)))"
    if c: "c \<in> set cluster_records" for c
  proof -
    obtain k shash sub where a: "c = cluster_of pf k shash sub"
        "filter (\<lambda>m. mr_cluster_id m = cr_cluster_id c) member_records =
           map (member_of (cid_of k) shash) sub"
      using rows[OF c] by blast
    have pm: "map mr_post_id (map (member_of (cid_of k) shash) sub) = map m_post_id sub"
      by (induction sub) (simp_all add: member_of_def)
    have c1: "cr_count_meters c = length sub" by (simp add: a(1) cluster_of_def)
    have c2: "cr_post_ids c = py_join ''|'' (sort (map m_post_id sub))"
      by (simp add: a(1) cluster_of_def)
    show ?thesis unfolding a(2) pm c1 c2 by simp
  qed
  have p3: "set (map mr_cluster_id member_records) = set (map cr_cluster_id cluster_records)"
  proof (rule set_eqI)
    fix cid
    show "cid \<in> set (map mr_cluster_id member_records) \<longleftrightarrow> cid \<in> set (map cr_cluster_id cluster_records)"
    proof
      assume "cid \<in> set (map mr_cluster_id member_records)"
      then obtain m where m: "m \<in> set member_records" "cid = mr_cluster_id m" by auto
      obtain k h s x where a: "m = member_of (cid_of k) h x"
          "cluster_of pf k h s \<in> set (emit_clusters pf 0 subs)"
        using emit_member_cluster[of m 0 subs pf] m(1) t(4) by blast
      have "cr_cluster_id (cluster_of pf k h s) = cid" by (simp add: m(2) a(1) member_of_def cluster_of_def)
      then show "cid \<in> set (map cr_cluster_id cluster_records)"
        using a(2) t(3) by (auto intro: image_eqI[of _ _ "cluster_of pf k h s"])
    next
      assume "cid \<in> set (map cr_cluster_id cluster_records)"
      then obtain c where c: "c \<in> set cluster_records" "cid = cr_cluster_id c" by auto
      obtain k shash sub where a: "sub \<noteq> []"
          "filter (\<lambda>m. mr_cluster_id m = cr_cluster_id c) member_records =
             map (member_of (cid_of k) shash) sub"
        using rows[OF c(1)] by blast
      then have "filter (\<lambda>m. mr_cluster_id m = cr_cluster_id c) member_records \<noteq> []" by simp
      then obtain m where "m \<in> set member_records" "mr_cluster_id m = cr_cluster_id c"
        by (auto simp: filter_empty_conv)
      then show "cid \<in> set (map mr_cluster_id member_records)"
        using c(2) by (auto intro: image_eqI[of _ _ m])
    qed
  qed
  show ?thesis using p1 p2 p3 p4 p5 by blast
qed

section \<open>The tables of the example\<close>

lemma py_int_examples:
  "py_int ''0'' = Inr 0" "py_int ''180'' = Inr 180" "py_int ''x'' = Inl ValueError"
  by code_simp+

lemma int_to_numeric_examples:
  "int_to_numeric ''0'' = Some (Fl 0)" "int_to_numeric ''180'' = Some (Fl 180)"
  "int_to_numeric ''x'' = None"
  by (simp_all add: int_to_numeric_def py_int_examples)

lemma fmt_0d_examples:
  "fmt_0d 1 0 = ''0''" "fmt_0d 1 180 = ''180''" "fmt_0d 5 1 = ''00001''" "fmt_0d 5 2 = ''00002''"
  by code_simp+

lemma fmt_0d_width_1: "fmt_0d (Suc 0) 0 = ''0''" "fmt_0d (Suc 0) 180 = ''180''"
  using fmt_0d_examples(1,2) by simp_all

lemma example_numeric_rows:
  "numeric_rows example_platform (table_rows example_table) =
     [example_numeric_row ''P1'' 0 ''0.0'', example_numeric_row ''P2'' 0 ''0.0'',
      example_numeric_row ''P3'' 180 ''180.0'', example_numeric_row ''P1'' 0 ''0.0'']"
  by (simp add: numeric_rows_def example_platform_def example_table_def example_row_def cell_def
        int_to_numeric_examples ex_float_str_def fmt_0d_width_1 example_numeric_row_def fun_eq_iff)

lemma example_groups:
  "groupby nr_post_id (numeric_rows example_platform (table_rows example_table)) =
     [(''P1'', [example_numeric_row ''P1'' 0 ''0.0'', example_numeric_row ''P1'' 0 ''0.0'']),
      (''P2'', [example_numeric_row ''P2'' 0 ''0.0'']),
      (''P3'', [example_numeric_row ''P3'' 180 ''180.0''])]"
  by (simp add: example_numeric_rows groupby_def firsts_def example_numeric_row_def)

lemma example_signature:
  assumes "rows \<noteq> []" "\<forall>r\<in>set rows. r ''time_limit_min'' = Some ''60''"
  shows "build_schedule_signature rows [''time_limit_min''] = Inr (example_hash, example_entries)"
proof -
  define e :: pydict where "e = [(''time_limit_min'', ''60'')]"
  have "entry_of [''time_limit_min''] r = e" if r: "r \<in> set rows" for r
  proof -
    have "r ''time_limit_min'' = Some ''60''" using assms(2) r by blast
    then show ?thesis by (simp add: entry_of_def row_entry_def field_value_def e_def)
  qed
  then have "entry_of [''time_limit_min''] ` set rows = {e}" using assms(1) by (cases rows) auto
  then have "canonical_entries rows [''time_limit_min''] =
               map_result json_loads [json_dumps_dict True True e]"
    by (simp add: canonical_entries_eq)
  also have "\<dots> = Inr [e]"
    using json_loads_dumps[of e True True] by (simp add: e_def)
  finally show ?thesis
    by (simp add: build_schedule_signature_def example_hash_def example_entries_def e_def)
qed

lemma ex_mean_examples:
  "ex_mean [Fl 0] = Fl 0" "ex_mean [Fl 0, Fl 0] = Fl 0" "ex_mean [Fl 180] = Fl 180"
  by (simp_all add: ex_mean_def ex_div_def ex_add_def)

lemma example_make_meter:
  "make_meter example_platform (columns example_table) [''time_limit_min'']
     (''P1'', [example_numeric_row ''P1'' 0 ''0.0'', example_numeric_row ''P1'' 0 ''0.0'']) =
   Some (Inr (example_meter ''P1'' 0))"
  "make_meter example_platform (columns example_table) [''time_limit_min'']
     (''P2'', [example_numeric_row ''P2'' 0 ''0.0'']) = Some (Inr (example_meter ''P2'' 0))"
  "make_meter example_platform (columns example_table) [''time_limit_min'']
     (''P3'', [example_numeric_row ''P3'' 180 ''180.0'']) = Some (Inr (example_meter ''P3'' 180))"
  by (simp_all add: make_meter_def example_signature example_numeric_row_def bind_res_Some
        column_mode_def example_table_def bind_res_ret ret_def example_meter_def
        example_platform_def ex_mean_examples)

lemma example_meters:
  "for_each (groupby nr_post_id (numeric_rows example_platform (table_rows example_table)))
     (meter_step example_platform (columns example_table) [''time_limit_min'']) [] =
   Some (Inr [example_meter ''P1'' 0, example_meter ''P2'' 0, example_meter ''P3'' 180])"
  by (simp add: example_groups meter_step_def example_make_meter bind_res_Some ret_def)

lemma example_hash_groups:
  "groupby m_schedule_hash [example_meter ''P1'' 0, example_meter ''P2'' 0, example_meter ''P3'' 180] =
     [(example_hash, [example_meter ''P1'' 0, example_meter ''P2'' 0, example_meter ''P3'' 180])]"
  by (simp add: groupby_def firsts_def example_meter_def)

lemma cluster_step_eq:
  assumes "for_each sub (max_radius_step (pf_arith pf) (pf_mean pf (map m_latitude sub))
             (pf_mean pf (map m_longitude sub))) (fl_of_int (pf_arith pf) 0) = Some (Inr max_r)"
    and "sub \<noteq> []"
  shows "cluster_step pf shash (gid, cs, ms) (lc, sub) =
           Some (Inr (gid + 1, cs @ [cluster_of pf (gid + 1) shash sub],
                      ms @ map (member_of (cid_of (gid + 1)) shash) sub))"
proof -
  have "nth_res (map m_schedule_json sub) 0 = Some (Inr (m_schedule_json (hd sub)))"
    using assms(2) by (cases sub) (simp_all add: nth_res_def ret_def)
  then show ?thesis
    by (simp add: cluster_step_def Let_def assms(1) bind_res_Some mode_total ret_def
          cluster_of_def cid_of_def max_radius_def)
qed

lemma max_radius_exact:
  assumes "\<forall>m\<in>set sub. \<exists>x y. m_latitude m = Fl x \<and> m_longitude m = Fl y"
  shows "\<exists>r. for_each sub (max_radius_step exact_arith (Fl a) (Fl b)) acc = Some (Inr r)"
  using assms
proof (induction sub arbitrary: acc)
  case Nil
  then show ?case by (simp add: ret_def)
next
  case (Cons m sub)
  obtain x y where m: "m_latitude m = Fl x" "m_longitude m = Fl y" using Cons.prems by auto
  have "max_radius_step exact_arith (Fl a) (Fl b) acc m =
          Some (Inr (py_max exact_arith acc (Fl (great_circle a b x y))))"
    by (simp add: max_radius_step_def m haversine_m_exact bind_res_Some ret_def)
  then show ?case using Cons by (simp add: bind_res_Some)
qed

lemma example_labels:
  "cluster_points_haversine exact_arith (\<lambda>lats lons radius_m. None)
     [Fl 0, Fl 0, Fl 0] [Fl 0, Fl 0, Fl 180] (Fl 20) = Some (Inr [0, 0, 1])"
proof -
  have le: "fl_le exact_arith = ex_le" by (simp add: exact_arith_def)
  show ?thesis
    by (simp add: cluster_points_haversine_def cluster_fallback_def union_pairs_def pair_step_def
          point_distance_def nth_res_def
          bind_res_ret bind_res_Some haversine_m_exact great_circle_examples far_apart le ex_le_def
          upt_rec[of 0] upt_rec[of 1] upt_rec[of 2] upt_rec[of 3] UnionFind_init_def uf_union_def
          uf_find_def find_loop.simps update_res_def find_step_def label_step_def ret_def
          numeral_2_eq_2 numeral_3_eq_3)
qed

lemma example_local_clusters:
  "groupby_sorted snd (zip [a, b, c] [0, 0, Suc 0]) = [(0, [(a, 0), (b, 0)]), (Suc 0, [(c, Suc 0)])]"
proof -
  have "sorted_list_of_set {0, Suc 0} = [0, Suc 0]"
    by (simp add: sorted_list_of_set.sorted_key_list_of_set_insert_remove)
  then show ?thesis by (simp add: groupby_sorted_def)
qed

lemma example_platform_fields:
  "pf_arith example_platform = exact_arith" "pf_mean example_platform = ex_mean"
  "pf_dbscan example_platform = (\<lambda>lats lons radius_m. None)"
  by (simp_all add: example_platform_def)

lemma example_cluster_steps:
  "cluster_step example_platform example_hash (gid, cs, ms)
     (lc, [example_meter ''P1'' 0, example_meter ''P2'' 0]) =
   Some (Inr (gid + 1,
              cs @ [cluster_of example_platform (gid + 1) example_hash
                      [example_meter ''P1'' 0, example_meter ''P2'' 0]],
              ms @ map (member_of (cid_of (gid + 1)) example_hash)
                     [example_meter ''P1'' 0, example_meter ''P2'' 0]))"
  "cluster_step example_platform example_hash (gid, cs, ms) (lc, [example_meter ''P3'' 180]) =
   Some (Inr (gid + 1,
              cs @ [cluster_of example_platform (gid + 1) example_hash [example_meter ''P3'' 180]],
              ms @ map (member_of (cid_of (gid + 1)) example_hash) [example_meter ''P3'' 180]))"
proof -
  have z: "fl_of_int exact_arith 0 = Fl 0" by (simp add: exact_arith_def)
  obtain r1 where "for_each [example_meter ''P1'' 0, example_meter ''P2'' 0]
      (max_radius_step exact_arith (Fl 0) (Fl 0)) (Fl 0) = Some (Inr r1)"
    using max_radius_exact[of "[example_meter ''P1'' 0, example_meter ''P2'' 0]" 0 0 "Fl 0"]
    by (auto simp: example_meter_def)
  then have m1: "for_each [example_meter ''P1'' 0, example_meter ''P2'' 0]
      (max_radius_step (pf_arith example_platform)
         (pf_mean example_platform (map m_latitude [example_meter ''P1'' 0, example_meter ''P2'' 0]))
         (pf_mean example_platform (map m_longitude [example_meter ''P1'' 0, example_meter ''P2'' 0])))
      (fl_of_int (pf_arith example_platform) 0) = Some (Inr r1)"
    by (simp add: example_platform_fields z example_meter_def ex_mean_examples)
  show "cluster_step example_platform example_hash (gid, cs, ms)
     (lc, [example_meter ''P1'' 0, example_meter ''P2'' 0]) =
   Some (Inr (gid + 1,
              cs @ [cluster_of example_platform (gid + 1) example_hash
                      [example_meter ''P1'' 0, example_meter ''P2'' 0]],
              ms @ map (member_of (cid_of (gid + 1)) example_hash)
                     [example_meter ''P1'' 0, example_meter ''P2'' 0]))"
    by (rule cluster_step_eq[OF m1]) simp
  obtain r2 where "for_each [example_meter ''P3'' 180]
      (max_radius_step exact_arith (Fl 0) (Fl 180)) (Fl 0) = Some (Inr r2)"
    using max_radius_exact[of "[example_meter ''P3'' 180]" 0 180 "Fl 0"]
    by (auto simp: example_meter_def)
  then have m2: "for_each [example_meter ''P3'' 180]
      (max_radius_step (pf_arith example_platform)
         (pf_mean example_platform (map m_latitude [example_meter ''P3'' 180]))
         (pf_mean example_platform (map m_longitude [example_meter ''P3'' 180])))
      (fl_of_int (pf_arith example_platform) 0) = Some (Inr r2)"
    by (simp add: example_platform_fields z example_meter_def ex_mean_examples)
  show "cluster_step example_platform example_hash (gid, cs, ms) (lc, [example_meter ''P3'' 180]) =
   Some (Inr (gid + 1,
              cs @ [cluster_of example_platform (gid + 1) example_hash [example_meter ''P3'' 180]],
              ms @ map (member_of (cid_of (gid + 1)) example_hash) [example_meter ''P3'' 180]))"
    by (rule cluster_step_eq[OF m2]) simp
qed

lemma example_group_step:
  "group_step example_platform (Fl 20) (0, [], [])
     (example_hash, [example_meter ''P1'' 0, example_meter ''P2'' 0, example_meter ''P3'' 180]) =
   Some (Inr (2, emit_clusters example_platform 0 example_clusters, emit_members 0 example_clusters))"
proof -
  have l: "cluster_points_haversine (pf_arith example_platform) (pf_dbscan example_platform)
             (map m_latitude [example_meter ''P1'' 0, example_meter ''P2'' 0, example_meter ''P3'' 180])
             (map m_longitude [example_meter ''P1'' 0, example_meter ''P2'' 0, example_meter ''P3'' 180])
             (Fl 20) = Some (Inr [0, 0, Suc 0])"
    using example_labels by (simp add: example_platform_fields example_meter_def)
  have g: "groupby_sorted snd
             [(example_meter ''P1'' 0, 0), (example_meter ''P2'' 0, 0), (example_meter ''P3'' 180, Suc 0)] =
           [(0, [(example_meter ''P1'' 0, 0), (example_meter ''P2'' 0, 0)]),
            (Suc 0, [(example_meter ''P3'' 180, Suc 0)])]"
    using example_local_clusters[of "example_meter ''P1'' 0" "example_meter ''P2'' 0" "example_meter ''P3'' 180"]
    by simp
  show ?thesis
    unfolding group_step_def prod.case l bind_res_Some
    by (simp add: g example_cluster_steps bind_res_Some ret_def example_clusters_def numeral_2_eq_2)
qed

lemma example_main:
  "main example_platform (Fl 20) [''time_limit_min''] example_table =
     Some (Inr (emit_clusters example_platform 0 example_clusters, emit_members 0 example_clusters))"
proof -
  have c: "filter (\<lambda>c. c \<notin> set (columns example_table)) required_cols = []"
    by (simp add: example_table_def required_cols_def)
  have ne: "[example_meter ''P1'' 0, example_meter ''P2'' 0, example_meter ''P3'' 180] \<noteq> []" by simp
  show ?thesis
    unfolding main_def Let_def c example_meters bind_res_Some
    by (simp add: example_hash_groups example_group_step bind_res_Some ret_def)
qed

lemma example_emit_members: "emit_members 0 example_clusters = example_members"
  by (simp add: example_clusters_def member_of_def cid_of_def fmt_0d_examples example_meter_def
        example_members_def example_member_def)

lemma example_tables:
  "main example_platform (Fl 20) [''time_limit_min''] example_table =
     Some (Inr (example_cluster_records, example_members))"
  using example_main by (simp add: example_emit_members example_cluster_records_def)

lemma example_cluster_columns:
  "map (\<lambda>c. (cr_cluster_id c, cr_count_meters c, cr_post_ids c)) example_cluster_records =
     [(''C00001'', 2, ''P1|P2''), (''C00002'', 1, ''P3'')]"
proof -
  have "py_join ''|'' (sort [''P1'', ''P2'']) = ''P1|P2''" "py_join ''|'' (sort [''P3'']) = ''P3''"
    by code_simp+
  then show ?thesis
    by (simp add: example_cluster_records_def example_clusters_def cluster_of_def cid_of_def
          fmt_0d_examples example_meter_def)
qed

theorem main_signature_separation_witness:
  "main example_platform (Fl 20) [''time_limit_min''] example_table =
     Some (Inr (example_cluster_records, example_members)) \<and>
   example_member ''C00001'' ''P1'' 0 \<in> set example_members \<and>
   example_member ''C00001'' ''P2'' 0 \<in> set example_members \<and>
   mr_cluster_id (example_member ''C00001'' ''P1'' 0) =
     mr_cluster_id (example_member ''C00001'' ''P2'' 0) \<and>
   mr_schedule_hash (example_member ''C00001'' ''P1'' 0) =
     mr_schedule_hash (example_member ''C00001'' ''P2'' 0) \<and>
   (\<exists>es. build_schedule_signature
           (map nr_row (filter (\<lambda>x. nr_post_id x = mr_post_id (example_member ''C00001'' ''P1'' 0))
                          (numeric_rows example_platform (table_rows example_table))))
           [''time_limit_min''] =
         Inr (mr_schedule_hash (example_member ''C00001'' ''P1'' 0), es))"
proof -
  note t = main_signature_separation[OF example_tables]
  have m1: "example_member ''C00001'' ''P1'' 0 \<in> set example_members"
    and m2: "example_member ''C00001'' ''P2'' 0 \<in> set example_members"
    by (simp_all add: example_members_def)
  have eq: "mr_cluster_id (example_member ''C00001'' ''P1'' 0) =
            mr_cluster_id (example_member ''C00001'' ''P2'' 0)"
    by (simp add: example_member_def)
  have h: "mr_schedule_hash (example_member ''C00001'' ''P1'' 0) =
           mr_schedule_hash (example_member ''C00001'' ''P2'' 0)"
    using t[THEN conjunct2] m1 m2 eq by blast
  have s: "\<exists>es. build_schedule_signature
           (map nr_row (filter (\<lambda>x. nr_post_id x = mr_post_id (example_member ''C00001'' ''P1'' 0))
                          (numeric_rows example_platform (table_rows example_table))))
           [''time_limit_min''] =
         Inr (mr_schedule_hash (example_member ''C00001'' ''P1'' 0), es)"
    using t[THEN conjunct1] m1 by blast
  show ?thesis using example_tables m1 m2 eq h s by blast
qed

theorem main_tables_consistent_witness:
  "main example_platform (Fl 20) [''time_limit_min''] example_table =
     Some (Inr (example_cluster_records, example_members)) \<and>
   map (\<lambda>c. (cr_cluster_id c, cr_count_meters c, cr_post_ids c)) example_cluster_records =
     [(''C00001'', 2, ''P1|P2''), (''C00002'', 1, ''P3'')] \<and>
   (\<forall>pid. count_list (map mr_post_id example_members) pid =
           (if pid \<in> nr_post_id ` set (numeric_rows example_platform (table_rows example_table))
            then 1 else 0)) \<and>
   sum_list (map cr_count_meters example_cluster_records) = length example_members \<and>
   set (map mr_cluster_id example_members) = set (map cr_cluster_id example_cluster_records) \<and>
   distinct (map cr_cluster_id example_cluster_records) \<and>
   hd example_cluster_records \<in> set example_cluster_records \<and>
   cr_count_meters (hd example_cluster_records) =
     length (filter (\<lambda>m. mr_cluster_id m = cr_cluster_id (hd example_cluster_records)) example_members) \<and>
   cr_post_ids (hd example_cluster_records) =
     py_join ''|'' (sort (map mr_post_id
       (filter (\<lambda>m. mr_cluster_id m = cr_cluster_id (hd example_cluster_records)) example_members)))"
proof -
  note t = main_tables_consistent[OF example_tables]
  have c: "hd example_cluster_records \<in> set example_cluster_records"
    by (simp add: example_cluster_records_def example_clusters_def)
  have p5: "cr_count_meters (hd example_cluster_records) =
     length (filter (\<lambda>m. mr_cluster_id m = cr_cluster_id (hd example_cluster_records)) example_members) \<and>
   cr_post_ids (hd example_cluster_records) =
     py_join ''|'' (sort (map mr_post_id
       (filter (\<lambda>m. mr_cluster_id m = cr_cluster_id (hd example_cluster_records)) example_members)))"
    using t c by blast
  show ?thesis
    using t example_tables example_cluster_columns c p5 by (intro conjI) blast+
qed

end
